theory Spec2Isabelle
  imports Main
begin

section \<open>phibers: dyad features of protein sequences\<close>

text \<open>
  A shallow embedding of \<^verbatim>\<open>bin/phibers.py\<close>. Python strings are \<open>string\<close>, Python
  integers are \<open>int\<close>, a Python \<^verbatim>\<open>dict\<close> is an association list in insertion order,
  exceptions are values of a sum type, and what the script prints is a list of messages.
\<close>

subsection \<open>Feature space\<close>

text \<open>
  \<^verbatim>\<open>string_two_mers()\<close>: the list comprehension
  \<^verbatim>\<open>[(letter1, letter2) for letter1 in LETTERS for letter2 in LETTERS]\<close> followed by
  \<^verbatim>\<open>''.join(tupl)\<close> for each tuple.
\<close>

definition LETTERS :: "string list" where
  "LETTERS = [''A'', ''C'', ''D'', ''E'', ''F'', ''G'', ''H'', ''I'', ''K'', ''L'',
              ''M'', ''N'', ''P'', ''Q'', ''R'', ''S'', ''T'', ''V'', ''W'', ''Y'']"

definition join_tuple :: "string \<times> string \<Rightarrow> string" where
  "join_tuple tupl = fst tupl @ snd tupl"

definition string_two_mers :: "unit \<Rightarrow> string list" where
  "string_two_mers u =
     (let tuples = concat (map (\<lambda>letter1. map (\<lambda>letter2. (letter1, letter2)) LETTERS) LETTERS)
      in map join_tuple tuples)"

subsection \<open>Counting\<close>

text \<open>
  \<^verbatim>\<open>sequence.count(mer)\<close> is the library's substring count: the number of
  non-overlapping occurrences of \<open>sub\<close>, found from the left; for the empty \<open>sub\<close> it is
  the length plus one. The scan compares \<open>sub\<close> with the text at the current position,
  skips the whole of \<open>sub\<close> on a match and one character otherwise.
\<close>

function str_count :: "string \<Rightarrow> string \<Rightarrow> int" where
  "str_count s sub =
     (if sub = [] then int (length s) + 1
      else if length s < length sub then 0
      else if take (length sub) s = sub then 1 + str_count (drop (length sub) s) sub
      else str_count (tl s) sub)"
  by pat_completeness auto
termination
proof (relation "measure (\<lambda>(s, sub). length s)")
  show "wf (measure (\<lambda>(s :: string, sub :: string). length s))" by simp
next
  fix s sub :: string
  assume "sub \<noteq> []" and "\<not> length s < length sub"
  then have "length s - length sub < length s" by (cases sub) auto
  then show "((drop (length sub) s, sub), s, sub) \<in> measure (\<lambda>(s, sub). length s)"
    by simp
next
  fix s sub :: string
  assume "sub \<noteq> []" and "\<not> length s < length sub"
  then have "s \<noteq> []" by (cases sub) auto
  then show "((tl s, sub), s, sub) \<in> measure (\<lambda>(s, sub). length s)"
    by simp
qed

declare str_count.simps [simp del]

text \<open>
  A Python \<^verbatim>\<open>dict\<close> keeps its keys in insertion order; assigning to a key that is
  present replaces the value and leaves the key where it is.
\<close>

type_synonym ('k, 'v) pydict = "('k \<times> 'v) list"

fun setitem :: "('k, 'v) pydict \<Rightarrow> 'k \<Rightarrow> 'v \<Rightarrow> ('k, 'v) pydict" where
  "setitem [] k v = [(k, v)]"
| "setitem ((k', v') # d) k v = (if k' = k then (k', v) # d else (k', v') # setitem d k v)"

definition keys :: "('k, 'v) pydict \<Rightarrow> 'k list" where
  "keys d = map fst d"

definition getitem :: "('k, 'v) pydict \<Rightarrow> 'k \<Rightarrow> 'v option" where
  "getitem d k = map_of d k"

text \<open>\<^verbatim>\<open>count_two_mers(sequence, two_mers)\<close>: one dictionary entry per 2-mer.\<close>

definition count_two_mers :: "string \<Rightarrow> string list \<Rightarrow> (string, int) pydict" where
  "count_two_mers sequence two_mers =
     foldl (\<lambda>dictionary mer. setitem dictionary mer (str_count sequence mer)) [] two_mers"

text \<open>
  The scan as the specification words it, for a dyad: \<open>next_match\<close> locates the next
  occurrence at or after the scan position, and after each match the scan position
  advances by 2.
\<close>

function next_match :: "string \<Rightarrow> string \<Rightarrow> nat \<Rightarrow> nat option" where
  "next_match s d pos =
     (if length s < pos + 2 then None
      else if [s ! pos, s ! (pos + 1)] = d then Some pos
      else next_match s d (pos + 1))"
  by pat_completeness auto
termination
  by (relation "measure (\<lambda>(s, d, pos). length s - pos)") auto

declare next_match.simps [simp del]

lemma next_match_bounds:
  "next_match s d pos = Some p \<Longrightarrow> pos \<le> p \<and> p + 2 \<le> length s"
proof (induction s d pos rule: next_match.induct)
  case (1 s d pos)
  show ?case
  proof (cases "length s < pos + 2")
    case True
    with "1.prems" show ?thesis by (simp add: next_match.simps [of s d pos])
  next
    case False
    show ?thesis
    proof (cases "[s ! pos, s ! (pos + 1)] = d")
      case True
      with False "1.prems" show ?thesis by (simp add: next_match.simps [of s d pos])
    next
      case nomatch: False
      with False "1.prems" have "next_match s d (pos + 1) = Some p"
        by (simp add: next_match.simps [of s d pos])
      with "1.IH" False nomatch show ?thesis by fastforce
    qed
  qed
qed

function scan_count :: "string \<Rightarrow> string \<Rightarrow> nat \<Rightarrow> nat" where
  "scan_count s d pos =
     (case next_match s d pos of
        None \<Rightarrow> 0
      | Some p \<Rightarrow> 1 + scan_count s d (p + 2))"
  by pat_completeness auto
termination
proof (relation "measure (\<lambda>(s, d, pos). length s - pos)")
  show "wf (measure (\<lambda>(s, d, pos). length s - pos))" by simp
next
  fix s d :: string and pos x2 :: nat
  assume "next_match s d pos = Some x2"
  then have "pos \<le> x2 \<and> x2 + 2 \<le> length s" by (rule next_match_bounds)
  then have "length s - (x2 + 2) < length s - pos" by arith
  then show "((s, d, x2 + 2), s, d, pos) \<in> measure (\<lambda>(s, d, pos). length s - pos)"
    by simp
qed

declare scan_count.simps [simp del]


subsection \<open>Sequence source\<close>

text \<open>
  A record of the sequence-file reader has an \<^verbatim>\<open>id\<close> and a \<^verbatim>\<open>seq\<close>.
  \<^verbatim>\<open>SeqIO.parse\<close> is an iterator: it yields records and either ends or raises after
  some of them. The file system is a parameter: which paths are files, what a directory
  lists (or the exception of \<^verbatim>\<open>os.listdir\<close>), and what parsing a path yields.
\<close>

record seq_record =
  id' :: string
  seq :: string

datatype parse_result =
    Yields "seq_record list"
  | YieldsThenRaises "seq_record list"

datatype error =
    ListdirError
  | LoadError
  | PredictError
  | ValueError
  | KeyError
  | WriteError

record dataframe =
  index :: "string list"
  columns :: "string list"
  cells :: "int option list list"

text \<open>One constructor for each \<^verbatim>\<open>print\<close> of the script, with the values it formats.\<close>

datatype msg =
    NumberOfSequences string nat
  | FailedToLoadFile string
  | ReadingFromDirectory string
  | ConstructingDataframe
  | DataframeConstructed
  | Predicting
  | FinishedPrediction
  | NoFastaRecordsFound
  | FoundFastaRecords nat
  | DFShape nat nat
  | HeadOfDF
  | PrintDataframe dataframe
  | PrintPrediction "int list"
  | PrintTypeLen nat
  | NumberOfPositivelyPredicted nat
  | PredictionsSavedTo string
  | Welcome
  | Finished

type_synonym classifier = "dataframe \<Rightarrow> error + int list"

record env =
  isfile :: "string \<Rightarrow> bool"
  listdir :: "string \<Rightarrow> error + string list"
  parse :: "string \<Rightarrow> parse_result"
  script_dir :: string
  load :: "string \<Rightarrow> error + classifier"
  writable :: "string \<Rightarrow> bool"

text \<open>\<^verbatim>\<open>os.path.join(a, b)\<close> on POSIX paths.\<close>

definition path_join :: "string \<Rightarrow> string \<Rightarrow> string" where
  "path_join a b =
     (if take 1 b = ''/'' then b
      else if a = [] \<or> last a = CHR ''/'' then a @ b
      else a @ ''/'' @ b)"

text \<open>
  \<^verbatim>\<open>read_fastas_from_file\<close>: the bare \<^verbatim>\<open>except\<close> catches whatever the parser raises,
  and the records appended so far are dropped.
\<close>

definition read_fastas_from_file :: "env \<Rightarrow> string \<Rightarrow> seq_record list \<times> msg list" where
  "read_fastas_from_file e file =
     (case parse e file of
        Yields fastas \<Rightarrow> (fastas, [NumberOfSequences file (length fastas)])
      | YieldsThenRaises fastas \<Rightarrow> ([], [FailedToLoadFile file]))"

definition read_fastas_from_directory ::
  "env \<Rightarrow> string \<Rightarrow> (error + seq_record list) \<times> msg list" where
  "read_fastas_from_directory e directory =
     (case listdir e directory of
        Inl err \<Rightarrow> (Inl err, [ReadingFromDirectory directory])
      | Inr filenames \<Rightarrow>
          (let (fastas, out) =
                 foldl (\<lambda>(fastas, out) filename.
                          let (found, printed) =
                                read_fastas_from_file e (path_join directory filename)
                          in (fastas @ found, out @ printed))
                       ([], [ReadingFromDirectory directory]) filenames
           in (Inr fastas, out)))"

definition get_fastas :: "env \<Rightarrow> string \<Rightarrow> (error + seq_record list) \<times> msg list" where
  "get_fastas e source =
     (if isfile e source
      then (let (fastas, out) = read_fastas_from_file e source in (Inr fastas, out))
      else read_fastas_from_directory e source)"

subsection \<open>Feature matrix\<close>

text \<open>
  \<^verbatim>\<open>pd.DataFrame.from_dict(dictionary, orient='index')\<close> on a dictionary of dictionaries.
  The library first turns the nesting inside out (\<^verbatim>\<open>new_data[col][index] = v\<close>, on a
  \<^verbatim>\<open>defaultdict(dict)\<close>, in the iteration order of the two dictionaries) and builds the
  frame from the result: its columns are the keys of \<open>new_data\<close>, its index is the union
  of the inner keys in order of first appearance, and a cell with no entry is missing
  (\<open>None\<close>). This is the frame of records whose dictionaries have at least one key,
  as they have here, where every record carries the 400 dyads: with dictionaries
  that are all empty the regrouped data has no column and therefore no inner key, and
  whether the row labels survive then depends on the version of the library.
\<close>

definition getdefault :: "('k, ('i, 'v) pydict) pydict \<Rightarrow> 'k \<Rightarrow> ('i, 'v) pydict" where
  "getdefault d k = (case map_of d k of None \<Rightarrow> [] | Some inner \<Rightarrow> inner)"

definition from_nested_dict ::
  "(string, (string, int) pydict) pydict \<Rightarrow> (string, (string, int) pydict) pydict" where
  "from_nested_dict data =
     foldl (\<lambda>new_data (idx, s).
              foldl (\<lambda>new_data (col, v).
                       setitem new_data col (setitem (getdefault new_data col) idx v))
                    new_data s)
           [] data"

definition union_indexes :: "string list list \<Rightarrow> string list" where
  "union_indexes indexes = rev (remdups (rev (concat indexes)))"

definition DataFrame :: "(string, (string, int) pydict) pydict \<Rightarrow> dataframe" where
  "DataFrame data =
     (let idx = union_indexes (map (\<lambda>(col, s). keys s) data)
      in \<lparr>index = idx,
          columns = keys data,
          cells = map (\<lambda>i. map (\<lambda>(col, s). getitem s i) data) idx\<rparr>)"

definition from_dict_index :: "(string, (string, int) pydict) pydict \<Rightarrow> dataframe" where
  "from_dict_index data =
     (if length data > 0 then DataFrame (from_nested_dict data) else DataFrame [])"

definition construct_dataframe ::
  "string list \<Rightarrow> seq_record list \<Rightarrow> dataframe \<times> msg list" where
  "construct_dataframe two_mers fastas =
     (let dictionary =
            foldl (\<lambda>dictionary fasta.
                     setitem dictionary (id' fasta) (count_two_mers (seq fasta) two_mers))
                  [] fastas;
          df = from_dict_index dictionary
      in (df, [ConstructingDataframe, DataframeConstructed]))"

subsection \<open>Prediction and output\<close>

definition make_prediction :: "env \<Rightarrow> dataframe \<Rightarrow> (error + int list) \<times> msg list" where
  "make_prediction e df =
     (let model_source = script_dir e @ ''/sr_a.joblib''
      in case load e model_source of
           Inl err \<Rightarrow> (Inl err, [Predicting])
         | Inr model \<Rightarrow>
             (case model df of
                Inl err \<Rightarrow> (Inl err, [Predicting])
              | Inr prediction \<Rightarrow> (Inr prediction, [Predicting, FinishedPrediction])))"

text \<open>\<^verbatim>\<open>df.head(10)\<close>, \<^verbatim>\<open>np.count_nonzero\<close>.\<close>

definition head :: "dataframe \<Rightarrow> nat \<Rightarrow> dataframe" where
  "head df n = df\<lparr>index := take n (index df), cells := take n (cells df)\<rparr>"

definition count_nonzero :: "int list \<Rightarrow> nat" where
  "count_nonzero prediction = length (filter (\<lambda>x. x \<noteq> 0) prediction)"

text \<open>
  \<^verbatim>\<open>df[col] = values\<close>: the values must be as many as the rows; a column of that name
  is replaced, otherwise the column is added last.
\<close>

fun position :: "'a list \<Rightarrow> 'a \<Rightarrow> nat option" where
  "position [] x = None"
| "position (y # ys) x = (if y = x then Some 0 else map_option Suc (position ys x))"

definition set_column :: "dataframe \<Rightarrow> string \<Rightarrow> int list \<Rightarrow> error + dataframe" where
  "set_column df col values =
     (if length values \<noteq> length (index df) then Inl ValueError
      else (case position (columns df) col of
              Some j \<Rightarrow>
                Inr (df\<lparr>cells := map (\<lambda>(row, v). row[j := Some v]) (zip (cells df) values)\<rparr>)
            | None \<Rightarrow>
                Inr (df\<lparr>columns := columns df @ [col],
                        cells := map (\<lambda>(row, v). row @ [Some v]) (zip (cells df) values)\<rparr>)))"

text \<open>\<^verbatim>\<open>pd.DataFrame(df[col])\<close>: the frame of one column, on the same index.\<close>

definition column_frame :: "dataframe \<Rightarrow> string \<Rightarrow> error + dataframe" where
  "column_frame df col =
     (case position (columns df) col of
        None \<Rightarrow> Inl KeyError
      | Some j \<Rightarrow>
          Inr \<lparr>index = index df, columns = [col], cells = map (\<lambda>row. [row ! j]) (cells df)\<rparr>)"

text \<open>
  The written file as a table: the header line and one line per row, each the row label
  followed by the row's cells.
\<close>

record csv =
  header :: "string list"
  rows :: "(string \<times> int option list) list"

definition to_csv :: "env \<Rightarrow> dataframe \<Rightarrow> string \<Rightarrow> string \<Rightarrow> error + csv" where
  "to_csv e df path index_label =
     (if writable e path
      then Inr \<lparr>header = index_label # columns df, rows = zip (index df) (cells df)\<rparr>
      else Inl WriteError)"

text \<open>
  A run of \<^verbatim>\<open>start\<close>: the exception that left it, if any, what it printed, and the
  file it wrote.
\<close>

record outcome =
  raised :: "error option"
  stdout :: "msg list"
  written :: "(string \<times> csv) option"

definition start :: "env \<Rightarrow> string \<Rightarrow> string \<Rightarrow> outcome" where
  "start e source output =
     (case get_fastas e source of
        (Inl err, out) \<Rightarrow> \<lparr>raised = Some err, stdout = out, written = None\<rparr>
      | (Inr fastas, out) \<Rightarrow>
          if length fastas = 0
          then \<lparr>raised = None, stdout = out @ [NoFastaRecordsFound], written = None\<rparr>
          else
            (let out1 = out @ [FoundFastaRecords (length fastas)];
                 two_mers = string_two_mers ();
                 (two_mer_df, printed) = construct_dataframe two_mers fastas;
                 out2 = out1 @ printed @
                        [DFShape (length (index two_mer_df)) (length (columns two_mer_df)),
                         HeadOfDF, PrintDataframe (head two_mer_df 10)]
             in case make_prediction e two_mer_df of
                  (Inl err, printed) \<Rightarrow>
                    \<lparr>raised = Some err, stdout = out2 @ printed, written = None\<rparr>
                | (Inr prediction, printed) \<Rightarrow>
                    (let out3 = out2 @ printed @
                                [PrintPrediction prediction, PrintTypeLen (length prediction),
                                 NumberOfPositivelyPredicted (count_nonzero prediction)]
                     in case set_column two_mer_df ''prediction'' prediction of
                          Inl err \<Rightarrow> \<lparr>raised = Some err, stdout = out3, written = None\<rparr>
                        | Inr two_mer_df' \<Rightarrow>
                            (case column_frame two_mer_df' ''prediction'' of
                               Inl err \<Rightarrow> \<lparr>raised = Some err, stdout = out3, written = None\<rparr>
                             | Inr result \<Rightarrow>
                                 (case to_csv e result output ''Protein ID'' of
                                    Inl err \<Rightarrow>
                                      \<lparr>raised = Some err, stdout = out3, written = None\<rparr>
                                  | Inr file \<Rightarrow>
                                      \<lparr>raised = None,
                                       stdout = out3 @ [PredictionsSavedTo output],
                                       written = Some (output, file)\<rparr>)))))"

text \<open>
  \<^verbatim>\<open>main\<close> after argument parsing. An exception that leaves \<^verbatim>\<open>start\<close> is not
  caught: the interpreter reports it as a traceback and the process ends with status 1.
  The elapsed time in the last message is not modelled.
\<close>

record process =
  run :: outcome
  traceback :: "error option"
  exit_status :: int

definition main :: "env \<Rightarrow> string \<Rightarrow> string \<Rightarrow> process" where
  "main e fasta_file output_file =
     (let r = start e fasta_file output_file
      in case raised r of
           Some err \<Rightarrow>
             \<lparr>run = r\<lparr>stdout := Welcome # stdout r\<rparr>, traceback = Some err, exit_status = 1\<rparr>
         | None \<Rightarrow>
             \<lparr>run = r\<lparr>stdout := Welcome # stdout r @ [Finished]\<rparr>, traceback = None,
              exit_status = 0\<rparr>)"


text \<open>The elements of a list in the order of their first occurrence.\<close>

definition first_seen :: "'a list \<Rightarrow> 'a list" where
  "first_seen xs = rev (remdups (rev xs))"

subsection \<open>A concrete run\<close>

text \<open>
  Three records, two of them with the same identifier, a classifier that labels a row 1
  when its count in the second column (the dyad AC) is positive, and a small file
  system: a file with two records, a file in which an identifier repeats, a directory
  with a file that fails to parse and a file with one record, and an empty directory.
\<close>

definition P1 :: seq_record where
  "P1 = \<lparr>id' = ''P1'', seq = ''ACACAC''\<rparr>"

definition P2 :: seq_record where
  "P2 = \<lparr>id' = ''P2'', seq = ''GGGGGG''\<rparr>"

definition P1_again :: seq_record where
  "P1_again = \<lparr>id' = ''P1'', seq = ''GGGGGG''\<rparr>"

definition example_model :: classifier where
  "example_model df =
     Inr (map (\<lambda>row. if 1 < length row
                      then (case row ! 1 of Some c \<Rightarrow> (if 0 < c then 1 else 0) | None \<Rightarrow> 0)
                      else 0)
              (cells df))"

definition example_env :: env where
  "example_env =
     \<lparr>isfile = (\<lambda>p. p = ''in.fasta'' \<or> p = ''dup.fasta''),
      listdir = (\<lambda>p. if p = ''dir'' then Inr [''bad.fasta'', ''good.fasta'']
                      else if p = ''empty'' then Inr []
                      else Inl ListdirError),
      parse = (\<lambda>p. if p = ''in.fasta'' then Yields [P1, P2]
                    else if p = ''dup.fasta'' then Yields [P1, P2, P1_again]
                    else if p = ''dir/good.fasta'' then Yields [P1]
                    else YieldsThenRaises [P2]),
      script_dir = ''/opt/phibers/bin'',
      load = (\<lambda>p. if p = ''/opt/phibers/bin/sr_a.joblib''
                   then Inr example_model
                   else Inl LoadError),
      writable = (\<lambda>p. True)\<rparr>"

section \<open>Properties\<close>

subsection \<open>The substring count and the scan\<close>

lemma str_count_empty_sub: "str_count s [] = int (length s) + 1"
  by (simp add: str_count.simps)

lemma str_count_short: "sub \<noteq> [] \<Longrightarrow> length s < length sub \<Longrightarrow> str_count s sub = 0"
  by (simp add: str_count.simps)

lemma str_count_match:
  "sub \<noteq> [] \<Longrightarrow> length sub \<le> length s \<Longrightarrow> take (length sub) s = sub \<Longrightarrow>
   str_count s sub = 1 + str_count (drop (length sub) s) sub"
  by (subst str_count.simps) simp

lemma str_count_nomatch:
  "sub \<noteq> [] \<Longrightarrow> length sub \<le> length s \<Longrightarrow> take (length sub) s \<noteq> sub \<Longrightarrow>
   str_count s sub = str_count (tl s) sub"
  by (subst str_count.simps) simp

lemma str_count_bounds:
  "sub \<noteq> [] \<Longrightarrow> 0 \<le> str_count s sub \<and> str_count s sub * int (length sub) \<le> int (length s)"
proof (induction s sub rule: str_count.induct)
  case (1 s sub)
  show ?case
  proof (cases "length s < length sub")
    case True
    with "1.prems" show ?thesis by (simp add: str_count_short)
  next
    case long: False
    show ?thesis
    proof (cases "take (length sub) s = sub")
      case True
      with long "1.prems" have eq: "str_count s sub = 1 + str_count (drop (length sub) s) sub"
        by (simp add: str_count_match)
      from "1.IH"(1) [OF "1.prems" long True "1.prems"]
      have ih: "0 \<le> str_count (drop (length sub) s) sub"
        "str_count (drop (length sub) s) sub * int (length sub) \<le> int (length s - length sub)"
        by simp_all
      from long have "int (length s - length sub) = int (length s) - int (length sub)" by simp
      with ih eq show ?thesis by (simp add: algebra_simps)
    next
      case False
      with long "1.prems" have eq: "str_count s sub = str_count (tl s) sub"
        by (simp add: str_count_nomatch)
      from "1.IH"(2) [OF "1.prems" long False "1.prems"]
      have ih: "0 \<le> str_count (tl s) sub"
        "str_count (tl s) sub * int (length sub) \<le> int (length s - 1)"
        by simp_all
      with eq show ?thesis by simp
    qed
  qed
qed

lemma take2_drop:
  assumes "pos + 2 \<le> length s"
  shows "take 2 (drop pos s) = [s ! pos, s ! (pos + 1)]"
proof -
  from assms have a: "drop pos s = s ! pos # drop (Suc pos) s"
    by (simp add: Cons_nth_drop_Suc)
  from assms have b: "drop (Suc pos) s = s ! Suc pos # drop (Suc (Suc pos)) s"
    by (simp add: Cons_nth_drop_Suc)
  show ?thesis by (simp add: a b numeral_2_eq_2)
qed


lemma next_match_None_count:
  "length d = 2 \<Longrightarrow> next_match s d pos = None \<Longrightarrow> str_count (drop pos s) d = 0"
proof (induction s d pos rule: next_match.induct)
  case (1 s d pos)
  from "1.prems"(1) have dne: "d \<noteq> []" by auto
  show ?case
  proof (cases "length s < pos + 2")
    case True
    with "1.prems"(1) dne show ?thesis by (simp add: str_count_short)
  next
    case long: False
    with "1.prems"(2) have nomatch: "[s ! pos, s ! (pos + 1)] \<noteq> d"
      and rest: "next_match s d (pos + 1) = None"
      by (auto simp: next_match.simps [of s d pos] split: if_splits)
    from long have "take 2 (drop pos s) = [s ! pos, s ! (pos + 1)]"
      by (simp add: take2_drop)
    with nomatch "1.prems"(1) have "take (length d) (drop pos s) \<noteq> d" by simp
    with long dne "1.prems"(1) have "str_count (drop pos s) d = str_count (tl (drop pos s)) d"
      by (simp add: str_count_nomatch)
    also have "tl (drop pos s) = drop (pos + 1) s" by (simp add: drop_Suc tl_drop)
    also from "1.IH" [OF long nomatch "1.prems"(1) rest] have "str_count (drop (pos + 1) s) d = 0" .
    finally show ?thesis .
  qed
qed

lemma next_match_Some_count:
  "length d = 2 \<Longrightarrow> next_match s d pos = Some p \<Longrightarrow>
   str_count (drop pos s) d = 1 + str_count (drop (p + 2) s) d"
proof (induction s d pos rule: next_match.induct)
  case (1 s d pos)
  from "1.prems"(1) have dne: "d \<noteq> []" by auto
  from "1.prems"(2) have long: "\<not> length s < pos + 2"
    by (auto simp: next_match.simps [of s d pos] split: if_splits)
  then have t2: "take 2 (drop pos s) = [s ! pos, s ! (pos + 1)]"
    by (simp add: take2_drop)
  show ?case
  proof (cases "[s ! pos, s ! (pos + 1)] = d")
    case True
    with long "1.prems"(2) have "p = pos" by (simp add: next_match.simps [of s d pos])
    moreover from True t2 "1.prems"(1) have "take (length d) (drop pos s) = d" by simp
    with long dne "1.prems"(1)
    have "str_count (drop pos s) d = 1 + str_count (drop (length d) (drop pos s)) d"
      by (simp add: str_count_match)
    ultimately show ?thesis using "1.prems"(1) by (simp add: add.commute)
  next
    case nomatch: False
    with long "1.prems"(2) have rest: "next_match s d (pos + 1) = Some p"
      by (simp add: next_match.simps [of s d pos])
    from nomatch t2 "1.prems"(1) have "take (length d) (drop pos s) \<noteq> d" by simp
    with long dne "1.prems"(1) have "str_count (drop pos s) d = str_count (tl (drop pos s)) d"
      by (simp add: str_count_nomatch)
    also have "tl (drop pos s) = drop (pos + 1) s" by (simp add: drop_Suc tl_drop)
    also from "1.IH" [OF long nomatch "1.prems"(1) rest]
    have "str_count (drop (pos + 1) s) d = 1 + str_count (drop (p + 2) s) d" .
    finally show ?thesis .
  qed
qed

lemma str_count_scan:
  "length d = 2 \<Longrightarrow> str_count (drop pos s) d = int (scan_count s d pos)"
proof (induction s d pos rule: scan_count.induct)
  case (1 s d pos)
  show ?case
  proof (cases "next_match s d pos")
    case None
    with "1.prems" show ?thesis
      by (simp add: next_match_None_count scan_count.simps [of s d pos])
  next
    case (Some p)
    with "1.prems" have "str_count (drop pos s) d = 1 + str_count (drop (p + 2) s) d"
      by (simp add: next_match_Some_count)
    also from "1.IH" [OF Some "1.prems"]
    have "str_count (drop (p + 2) s) d = int (scan_count s d (p + 2))" .
    finally show ?thesis using Some by (simp add: scan_count.simps [of s d pos])
  qed
qed

lemma next_match_is_match:
  "next_match s d pos = Some p \<Longrightarrow> [s ! p, s ! (p + 1)] = d"
  by (induction s d pos rule: next_match.induct)
    (subst (asm) next_match.simps, auto split: if_splits)

lemma next_match_least:
  "next_match s d pos = Some p \<Longrightarrow> pos \<le> q \<Longrightarrow> q < p \<Longrightarrow> [s ! q, s ! (q + 1)] \<noteq> d"
proof (induction s d pos rule: next_match.induct)
  case (1 s d pos)
  from "1.prems"(1) have long: "\<not> length s < pos + 2"
    by (auto simp: next_match.simps [of s d pos] split: if_splits)
  from "1.prems" long have nomatch: "[s ! pos, s ! (pos + 1)] \<noteq> d"
    by (auto simp: next_match.simps [of s d pos] split: if_splits)
  with long "1.prems"(1) have rest: "next_match s d (pos + 1) = Some p"
    by (simp add: next_match.simps [of s d pos])
  show ?case
  proof (cases "q = pos")
    case True
    with nomatch show ?thesis by simp
  next
    case False
    with "1.prems"(2) have "pos + 1 \<le> q" by simp
    from "1.IH" [OF long nomatch rest this "1.prems"(3)] show ?thesis .
  qed
qed

lemma next_match_none_later:
  "next_match s d pos = None \<Longrightarrow> pos \<le> q \<Longrightarrow> q + 2 \<le> length s \<Longrightarrow> [s ! q, s ! (q + 1)] \<noteq> d"
proof (induction s d pos rule: next_match.induct)
  case (1 s d pos)
  from "1.prems" have long: "\<not> length s < pos + 2" by simp
  from "1.prems"(1) long have nomatch: "[s ! pos, s ! (pos + 1)] \<noteq> d"
    and rest: "next_match s d (pos + 1) = None"
    by (auto simp: next_match.simps [of s d pos] split: if_splits)
  show ?case
  proof (cases "q = pos")
    case True
    with nomatch show ?thesis by simp
  next
    case False
    with "1.prems"(2) have "pos + 1 \<le> q" by simp
    from "1.IH" [OF long nomatch rest this "1.prems"(3)] show ?thesis .
  qed
qed

lemma map_of_setitem: "map_of (setitem d k v) = (map_of d)(k \<mapsto> v)"
  by (induction d) (auto simp: fun_eq_iff)

lemma setitem_fresh: "k \<notin> fst ` set d \<Longrightarrow> setitem d k v = d @ [(k, v)]"
  by (induction d) auto

lemma keys_setitem_present: "k \<in> fst ` set d \<Longrightarrow> map fst (setitem d k v) = map fst d"
  by (induction d) force+

lemma getitem_count_two_mers_aux:
  "map_of (foldl (\<lambda>dictionary mer. setitem dictionary mer (f mer)) acc two_mers) m =
     (if m \<in> set two_mers then Some (f m) else map_of acc m)"
  by (induction two_mers arbitrary: acc) (auto simp: map_of_setitem)

lemma getitem_count_two_mers:
  "getitem (count_two_mers s two_mers) m =
     (if m \<in> set two_mers then Some (str_count s m) else None)"
  by (simp add: getitem_def count_two_mers_def getitem_count_two_mers_aux)

lemma foldl_setitem_distinct:
  "distinct (map fst acc @ ks) \<Longrightarrow>
   foldl (\<lambda>d k. setitem d k (f k)) acc ks = acc @ map (\<lambda>k. (k, f k)) ks"
proof (induction ks arbitrary: acc)
  case Nil
  then show ?case by simp
next
  case (Cons k ks)
  from Cons.prems have fresh: "k \<notin> fst ` set acc" by auto
  from Cons.prems have "distinct (map fst (acc @ [(k, f k)]) @ ks)" by auto
  from Cons.IH [OF this] fresh show ?case by (simp add: setitem_fresh)
qed

lemma count_two_mers_distinct:
  "distinct two_mers \<Longrightarrow>
   count_two_mers s two_mers = map (\<lambda>mer. (mer, str_count s mer)) two_mers"
  using foldl_setitem_distinct [of "[]" two_mers "str_count s"]
  by (simp add: count_two_mers_def)


lemma length_LETTERS: "length LETTERS = 20"
  by (simp add: LETTERS_def)

lemma distinct_LETTERS: "distinct LETTERS"
  by (simp add: LETTERS_def)

lemma LETTERS_single: "l \<in> set LETTERS \<Longrightarrow> length l = 1"
  by (auto simp: LETTERS_def)

lemma string_two_mers_product:
  "string_two_mers u = map join_tuple (List.product LETTERS LETTERS)"
  by (simp add: string_two_mers_def product_concat_map)

lemma length_string_two_mers: "length (string_two_mers u) = 400"
  by (simp add: string_two_mers_product length_LETTERS)

lemma inj_on_join_tuple: "inj_on join_tuple (set LETTERS \<times> set LETTERS)"
proof (rule inj_onI)
  fix x y :: "string \<times> string"
  assume x: "x \<in> set LETTERS \<times> set LETTERS" and y: "y \<in> set LETTERS \<times> set LETTERS"
    and eq: "join_tuple x = join_tuple y"
  from x y have "length (fst x) = length (fst y)"
    by (auto simp: LETTERS_single)
  with eq have "fst x = fst y \<and> snd x = snd y"
    by (simp add: join_tuple_def)
  then show "x = y" by (simp add: prod_eq_iff)
qed

lemma distinct_string_two_mers: "distinct (string_two_mers u)"
  by (simp add: string_two_mers_product distinct_map distinct_product distinct_LETTERS
      inj_on_join_tuple)

lemma set_string_two_mers:
  "set (string_two_mers u) = {a @ b | a b. a \<in> set LETTERS \<and> b \<in> set LETTERS}"
  by (simp add: string_two_mers_product join_tuple_def image_iff set_eq_iff) blast

lemma string_two_mers_nth:
  assumes "i < 20" and "j < 20"
  shows "string_two_mers u ! (20 * i + j) = LETTERS ! i @ LETTERS ! j"
proof -
  from assms have n: "20 * i + j < length LETTERS * length LETTERS"
    by (simp add: length_LETTERS)
  from assms have dm: "(20 * i + j) div 20 = i" "(20 * i + j) mod 20 = j" by simp_all
  from n have "string_two_mers u ! (20 * i + j) =
        join_tuple (List.product LETTERS LETTERS ! (20 * i + j))"
    by (simp add: string_two_mers_product)
  also from n have "\<dots> = LETTERS ! i @ LETTERS ! j"
    by (simp only: product_nth length_LETTERS dm join_tuple_def fst_conv snd_conv)
  finally show ?thesis .
qed

lemma dyad_length: "d \<in> set (string_two_mers u) \<Longrightarrow> length d = 2"
  by (auto simp: set_string_two_mers LETTERS_single)


subsection \<open>Claims about the feature space and the counter\<close>

text \<open>
  C1. For every sequence and every dyad of the feature space, the count that
  \<open>count_two_mers\<close> stores for the dyad is the number of matches of the left-to-right scan
  that resumes two positions after each match (\<open>scan_count\<close> from position 0); for the
  dyad AA in the sequence AAAA it is 2.
\<close>

theorem count_two_mers_is_nonoverlapping_scan:
  "(d \<in> set (string_two_mers ()) \<longrightarrow>
      getitem (count_two_mers s (string_two_mers ())) d = Some (int (scan_count s d 0)))
   \<and> getitem (count_two_mers ''AAAA'' (string_two_mers ())) ''AA'' = Some 2"
proof (intro conjI impI)
  assume d: "d \<in> set (string_two_mers ())"
  then have "length d = 2" by (rule dyad_length)
  from str_count_scan [OF this, of 0 s] d
  show "getitem (count_two_mers s (string_two_mers ())) d = Some (int (scan_count s d 0))"
    by (simp add: getitem_count_two_mers)
next
  have "''AA'' \<in> set (string_two_mers ())"
    by (simp add: string_two_mers_product join_tuple_def image_iff LETTERS_def)
  moreover have "str_count ''AAAA'' ''AA'' = 2" by code_simp
  ultimately show "getitem (count_two_mers ''AAAA'' (string_two_mers ())) ''AA'' = Some 2"
    by (simp add: getitem_count_two_mers)
qed

theorem count_two_mers_is_nonoverlapping_scan_witness:
  "''AA'' \<in> set (string_two_mers ())
   \<and> getitem (count_two_mers ''AAA'' (string_two_mers ())) ''AA'' = Some 1
   \<and> scan_count ''AAA'' ''AA'' 0 = 1"
proof -
  have m: "''AA'' \<in> set (string_two_mers ())"
    by (simp add: string_two_mers_product join_tuple_def image_iff LETTERS_def)
  have c: "scan_count ''AAA'' ''AA'' 0 = 1" by code_simp
  from count_two_mers_is_nonoverlapping_scan [of "''AA''" "''AAA''"] m c
  show ?thesis by simp
qed

text \<open>
  C2. \<open>string_two_mers\<close> returns 400 entries, pairwise distinct, each the concatenation
  of two alphabet symbols; the entry at position \<open>20 * i + j\<close> is symbol \<open>i\<close> followed by
  symbol \<open>j\<close> (first symbol outer, second inner, in alphabet order); and two calls return
  the same list.
\<close>

theorem string_two_mers_feature_space:
  "length (string_two_mers u) = 400
   \<and> distinct (string_two_mers u)
   \<and> length LETTERS = 20 \<and> distinct LETTERS
   \<and> set (string_two_mers u) = {a @ b | a b. a \<in> set LETTERS \<and> b \<in> set LETTERS}
   \<and> (\<forall>i < 20. \<forall>j < 20. string_two_mers u ! (20 * i + j) = LETTERS ! i @ LETTERS ! j)
   \<and> string_two_mers u = string_two_mers v"
proof -
  have "string_two_mers u = string_two_mers v" by (simp add: string_two_mers_def)
  then show ?thesis
    using length_string_two_mers [of u] distinct_string_two_mers [of u]
      set_string_two_mers [of u] string_two_mers_nth [of _ _ u]
    by (simp add: length_LETTERS distinct_LETTERS)
qed

theorem string_two_mers_feature_space_witness:
  "(1::nat) < 20 \<and> (2::nat) < 20 \<and> string_two_mers () ! (20 * 1 + 2) = ''CD''
   \<and> length (string_two_mers ()) = 400"
proof -
  from string_two_mers_feature_space [of "()" "()"]
  have nth: "\<forall>i < 20. \<forall>j < 20. string_two_mers () ! (20 * i + j) = LETTERS ! i @ LETTERS ! j"
    and len: "length (string_two_mers ()) = 400"
    by blast+
  from nth [rule_format, of 1 2]
  have "string_two_mers () ! (20 * 1 + 2) = LETTERS ! 1 @ LETTERS ! 2"
    by simp
  with len show ?thesis by (simp add: LETTERS_def)
qed

text \<open>
  C10. For every sequence \<open>s\<close> and every dyad of the feature space, the stored count
  \<open>c\<close> satisfies \<open>0 \<le> c \<le> \<lfloor>|s| / 2\<rfloor>\<close>, and on the empty sequence it is 0.
\<close>

theorem count_two_mers_bounds:
  "d \<in> set (string_two_mers ()) \<Longrightarrow>
   (\<exists>c. getitem (count_two_mers s (string_two_mers ())) d = Some c
        \<and> 0 \<le> c \<and> c \<le> int (length s div 2))
   \<and> getitem (count_two_mers [] (string_two_mers ())) d = Some 0"
proof -
  assume d: "d \<in> set (string_two_mers ())"
  then have len: "length d = 2" by (rule dyad_length)
  then have ne: "d \<noteq> []" by auto
  from str_count_bounds [OF ne, of s] len
  have "0 \<le> str_count s d" and "str_count s d * 2 \<le> int (length s)" by simp_all
  then have "0 \<le> str_count s d \<and> str_count s d \<le> int (length s div 2)" by linarith
  moreover from ne len have "str_count [] d = 0" by (simp add: str_count_short)
  ultimately show ?thesis using d by (simp add: getitem_count_two_mers)
qed

theorem count_two_mers_bounds_witness:
  "''AC'' \<in> set (string_two_mers ())
   \<and> getitem (count_two_mers ''ACACAC'' (string_two_mers ())) ''AC'' = Some 3
   \<and> (3::int) \<le> int (length ''ACACAC'' div 2)
   \<and> getitem (count_two_mers [] (string_two_mers ())) ''AC'' = Some 0"
proof -
  have m: "''AC'' \<in> set (string_two_mers ())"
    by (simp add: string_two_mers_product join_tuple_def image_iff LETTERS_def)
  have c: "str_count ''ACACAC'' ''AC'' = 3" by code_simp
  from count_two_mers_bounds [OF m, of "''ACACAC''"] m c
  show ?thesis by (simp add: getitem_count_two_mers)
qed

subsection \<open>Sequence source and the run\<close>

lemma read_directory_foldl:
  "foldl (\<lambda>(fastas, out) filename. (fastas @ fst (f filename), out @ snd (f filename)))
         (acc, printed0) filenames =
     (acc @ concat (map (\<lambda>filename. fst (f filename)) filenames),
      printed0 @ concat (map (\<lambda>filename. snd (f filename)) filenames))"
  by (induction filenames arbitrary: acc printed0) auto

lemma read_fastas_from_directory_listing:
  "listdir e directory = Inr filenames \<Longrightarrow>
   read_fastas_from_directory e directory =
     (Inr (concat (map (\<lambda>filename. fst (read_fastas_from_file e (path_join directory filename)))
                       filenames)),
      ReadingFromDirectory directory #
      concat (map (\<lambda>filename. snd (read_fastas_from_file e (path_join directory filename)))
                  filenames))"
  by (simp add: read_fastas_from_directory_def Let_def split_beta read_directory_foldl)


lemma read_fastas_from_file_load_irrelevant:
  "read_fastas_from_file (e\<lparr>load := l\<rparr>) file = read_fastas_from_file e file"
  by (simp add: read_fastas_from_file_def)

lemma get_fastas_load_irrelevant:
  "get_fastas (e\<lparr>load := l\<rparr>) source = get_fastas e source"
  by (simp add: get_fastas_def read_fastas_from_directory_def
      read_fastas_from_file_load_irrelevant split: sum.splits)

lemma start_no_records:
  "fst (get_fastas e source) = Inr [] \<Longrightarrow>
   start e source output =
     \<lparr>raised = None, stdout = snd (get_fastas e source) @ [NoFastaRecordsFound], written = None\<rparr>"
  by (cases "get_fastas e source") (simp add: start_def)

lemma start_load_fails:
  assumes "fst (get_fastas e source) = Inr fastas" and "fastas \<noteq> []"
    and "load e (script_dir e @ ''/sr_a.joblib'') = Inl err"
  shows "raised (start e source output) = Some err \<and> written (start e source output) = None
     \<and> last (stdout (start e source output)) = Predicting"
proof (cases "get_fastas e source")
  case (Pair r out)
  with assms(1) have g: "get_fastas e source = (Inr fastas, out)" by simp
  have mp: "make_prediction e df = (Inl err, [Predicting])" for df
    by (simp add: make_prediction_def assms(3))
  show ?thesis
    using assms(2) by (simp add: start_def g mp Let_def split_beta)
qed


lemma get_fastas_prints:
  "m \<in> set (snd (get_fastas e source)) \<Longrightarrow> m \<noteq> Predicting"
proof (cases "isfile e source")
  case True
  assume "m \<in> set (snd (get_fastas e source))"
  with True show ?thesis
    by (auto simp: get_fastas_def read_fastas_from_file_def split_beta
        split: parse_result.splits)
next
  case False
  assume m: "m \<in> set (snd (get_fastas e source))"
  show ?thesis
  proof (cases "listdir e source")
    case (Inl err)
    with False m show ?thesis
      by (auto simp: get_fastas_def read_fastas_from_directory_def)
  next
    case (Inr filenames)
    with False m show ?thesis
      by (auto simp: get_fastas_def read_fastas_from_directory_listing
          read_fastas_from_file_def split: parse_result.splits)
        (metis parse_result.exhaust)
  qed
qed



text \<open>
  C4. When the source yields zero records, \<open>start\<close> returns without an exception after
  the "no records" message, writes no file, and does not reach the classifier: nothing
  of the prediction step is printed and the outcome is the same for every model loader.
  The process ends with status 0.
\<close>

theorem zero_records_short_circuit:
  "fst (get_fastas e source) = Inr [] \<Longrightarrow>
   start e source output =
     \<lparr>raised = None, stdout = snd (get_fastas e source) @ [NoFastaRecordsFound],
      written = None\<rparr>
   \<and> Predicting \<notin> set (stdout (start e source output))
   \<and> start (e\<lparr>load := l\<rparr>) source output = start e source output
   \<and> traceback (main e source output) = None
   \<and> exit_status (main e source output) = 0
   \<and> written (run (main e source output)) = None"
proof -
  assume z: "fst (get_fastas e source) = Inr []"
  then have s: "start e source output =
     \<lparr>raised = None, stdout = snd (get_fastas e source) @ [NoFastaRecordsFound],
      written = None\<rparr>"
    by (rule start_no_records)
  from z have "fst (get_fastas (e\<lparr>load := l\<rparr>) source) = Inr []"
    by (simp add: get_fastas_load_irrelevant)
  then have "start (e\<lparr>load := l\<rparr>) source output =
     \<lparr>raised = None, stdout = snd (get_fastas (e\<lparr>load := l\<rparr>) source) @ [NoFastaRecordsFound],
      written = None\<rparr>"
    by (rule start_no_records)
  then have i: "start (e\<lparr>load := l\<rparr>) source output = start e source output"
    by (simp add: s get_fastas_load_irrelevant)
  have n: "Predicting \<notin> set (stdout (start e source output))"
    using get_fastas_prints [of Predicting e source] by (auto simp: s)
  from s i n show ?thesis by (simp add: main_def Let_def)
qed

theorem zero_records_short_circuit_witness:
  "fst (get_fastas example_env ''empty'') = Inr []
   \<and> start example_env ''empty'' ''out.csv'' =
       \<lparr>raised = None, stdout = [ReadingFromDirectory ''empty'', NoFastaRecordsFound],
        written = None\<rparr>
   \<and> exit_status (main example_env ''empty'' ''out.csv'') = 0"
proof -
  have g: "get_fastas example_env ''empty'' = (Inr [], [ReadingFromDirectory ''empty''])"
    by (simp add: get_fastas_def read_fastas_from_directory_def example_env_def)
  then have "fst (get_fastas example_env ''empty'') = Inr []" by simp
  from zero_records_short_circuit [OF this, of "''out.csv''"] g
  show ?thesis by simp
qed

text \<open>
  C9. When records were found and loading the model artifact raises, the exception
  leaves \<open>start\<close> right after the prediction step began, no file is written, and the
  process ends with the traceback of that exception and status 1.
\<close>

theorem model_load_failure_aborts:
  assumes "fst (get_fastas e source) = Inr fastas" and "fastas \<noteq> []"
    and "load e (script_dir e @ ''/sr_a.joblib'') = Inl err"
  shows "raised (start e source output) = Some err
     \<and> written (start e source output) = None
     \<and> last (stdout (start e source output)) = Predicting
     \<and> traceback (main e source output) = Some err
     \<and> exit_status (main e source output) = 1
     \<and> written (run (main e source output)) = None"
  using start_load_fails [OF assms, of "output"] by (simp add: main_def Let_def)

theorem model_load_failure_aborts_witness:
  "fst (get_fastas (example_env\<lparr>load := \<lambda>p. Inl LoadError\<rparr>) ''in.fasta'') = Inr [P1, P2]
   \<and> [P1, P2] \<noteq> []
   \<and> load (example_env\<lparr>load := \<lambda>p. Inl LoadError\<rparr>)
        (script_dir (example_env\<lparr>load := \<lambda>p. Inl LoadError\<rparr>) @ ''/sr_a.joblib'') = Inl LoadError
   \<and> raised (start (example_env\<lparr>load := \<lambda>p. Inl LoadError\<rparr>) ''in.fasta'' ''out.csv'') = Some LoadError
   \<and> written (start (example_env\<lparr>load := \<lambda>p. Inl LoadError\<rparr>) ''in.fasta'' ''out.csv'') = None
   \<and> exit_status (main (example_env\<lparr>load := \<lambda>p. Inl LoadError\<rparr>) ''in.fasta'' ''out.csv'') = 1"
proof -
  let ?e = "example_env\<lparr>load := \<lambda>p. Inl LoadError\<rparr>"
  have g: "fst (get_fastas ?e ''in.fasta'') = Inr [P1, P2]"
    by (simp add: get_fastas_def read_fastas_from_file_def example_env_def)
  have n: "[P1, P2] \<noteq> []" by simp
  have l: "load ?e (script_dir ?e @ ''/sr_a.joblib'') = Inl LoadError" by simp
  from model_load_failure_aborts [OF g n l, of "''out.csv''"] g l
  show ?thesis by simp
qed


subsection \<open>The feature matrix\<close>

lemma keys_setitem:
  "map fst (setitem d k v) = (if k \<in> set (map fst d) then map fst d else map fst d @ [k])"
  by (induction d) (force simp: image_iff)+

lemma setitem_map_present:
  "k \<in> set ks \<Longrightarrow> distinct ks \<Longrightarrow>
   setitem (map (\<lambda>i. (i, h i)) ks) k v = map (\<lambda>i. (i, (h(k := v)) i)) ks"
  by (induction ks) auto

lemma setitem_map_absent:
  "k \<notin> set ks \<Longrightarrow>
   setitem (map (\<lambda>i. (i, h i)) ks) k v = map (\<lambda>i. (i, (h(k := v)) i)) (ks @ [k])"
  by (induction ks) auto

lemma first_seen_snoc:
  "first_seen (xs @ [x]) = (if x \<in> set xs then first_seen xs else first_seen xs @ [x])"
  by (simp add: first_seen_def)

lemma set_first_seen: "set (first_seen xs) = set xs"
  by (simp add: first_seen_def)

lemma distinct_first_seen: "distinct (first_seen xs)"
  by (simp add: first_seen_def)

lemma first_seen_distinct: "distinct xs \<Longrightarrow> first_seen xs = xs"
  by (simp add: first_seen_def distinct_remdups_id)

lemma foldl_setitem_keyed:
  "foldl (\<lambda>d x. setitem d (k x) (g x)) [] xs =
     map (\<lambda>i. (i, g (last (filter (\<lambda>x. k x = i) xs)))) (first_seen (map k xs))"
proof (induction xs rule: rev_induct)
  case Nil
  show ?case by (simp add: first_seen_def)
next
  case (snoc x xs)
  let ?h = "\<lambda>i. g (last (filter (\<lambda>x. k x = i) xs))"
  let ?h' = "\<lambda>i. g (last (filter (\<lambda>y. k y = i) (xs @ [x])))"
  have upd: "map (\<lambda>i. (i, (?h(k x := g x)) i)) js = map (\<lambda>i. (i, ?h' i)) js" for js
    by (rule map_cong) auto
  show ?case
  proof (cases "k x \<in> set (map k xs)")
    case True
    then have "k x \<in> set (first_seen (map k xs))" by (simp add: set_first_seen)
    from setitem_map_present [OF this distinct_first_seen, of ?h "g x"] True snoc.IH upd
    show ?thesis
      by (simp add: first_seen_snoc)
  next
    case False
    then have "k x \<notin> set (first_seen (map k xs))" by (simp add: set_first_seen)
    from setitem_map_absent [OF this, of ?h "g x"] False snoc.IH upd show ?thesis
      by (simp add: first_seen_snoc)
  qed
qed


lemma getdefault_absent:
  assumes "col \<notin> fst ` set nd"
  shows "getdefault nd col = []"
proof -
  from assms have "map_of nd col = None" by (simp add: map_of_eq_None_iff)
  then show ?thesis by (simp add: getdefault_def)
qed

lemma getdefault_tabulated: "col \<in> set ks \<Longrightarrow> getdefault (map (\<lambda>c. (c, F c)) ks) col = F col"
  by (induction ks) (auto simp: getdefault_def)

lemma regroup_first:
  "distinct (map fst s) \<Longrightarrow> fst ` set acc \<inter> fst ` set s = {} \<Longrightarrow>
   foldl (\<lambda>new_data (col, v). setitem new_data col (setitem (getdefault new_data col) idx v))
         acc s =
     acc @ map (\<lambda>(col, v). (col, [(idx, v)])) s"
proof (induction s arbitrary: acc)
  case Nil
  show ?case by simp
next
  case (Cons x s)
  obtain col v where x: "x = (col, v)" by (cases x)
  from Cons.prems x have fresh: "col \<notin> fst ` set acc" by auto
  then have step: "setitem acc col (setitem (getdefault acc col) idx v) = acc @ [(col, [(idx, v)])]"
    by (simp add: getdefault_absent setitem_fresh)
  from Cons.prems x have d: "distinct (map fst s)"
    and disj: "fst ` set (acc @ [(col, [(idx, v)])]) \<inter> fst ` set s = {}"
    by (auto simp: image_iff)
  from Cons.IH [OF d disj] step x show ?case by simp
qed

lemma regroup_later:
  "distinct ks \<Longrightarrow> distinct (map fst s) \<Longrightarrow> fst ` set s \<subseteq> set ks \<Longrightarrow>
   foldl (\<lambda>new_data (col, v). setitem new_data col (setitem (getdefault new_data col) idx v))
         (map (\<lambda>c. (c, F c)) ks) s =
     map (\<lambda>c. (c, case map_of s c of None \<Rightarrow> F c | Some v \<Rightarrow> setitem (F c) idx v)) ks"
proof (induction s arbitrary: F)
  case Nil
  show ?case by simp
next
  case (Cons x s)
  obtain col v where x: "x = (col, v)" by (cases x)
  from Cons.prems x have col: "col \<in> set ks" and notin: "col \<notin> fst ` set s"
    and d: "distinct (map fst s)" and sub: "fst ` set s \<subseteq> set ks"
    by (auto simp: image_iff)
  let ?F = "F(col := setitem (F col) idx v)"
  from col Cons.prems(1)
  have step: "setitem (map (\<lambda>c. (c, F c)) ks) col
                (setitem (getdefault (map (\<lambda>c. (c, F c)) ks) col) idx v) =
              map (\<lambda>c. (c, ?F c)) ks"
    by (simp add: getdefault_tabulated setitem_map_present)
  from notin have none: "map_of s col = None" by (simp add: map_of_eq_None_iff)
  have "map (\<lambda>c. (c, case map_of s c of None \<Rightarrow> ?F c | Some v' \<Rightarrow> setitem (?F c) idx v')) ks =
        map (\<lambda>c. (c, case map_of (x # s) c of None \<Rightarrow> F c | Some v' \<Rightarrow> setitem (F c) idx v')) ks"
    by (rule map_cong) (auto simp: x none split: option.split)
  with Cons.IH [OF Cons.prems(1) d sub, of ?F] step x show ?case by simp
qed

lemma items_by_keys:
  "distinct (map fst s) \<Longrightarrow> map (\<lambda>(col, v). (col, g v)) s = map (\<lambda>c. (c, g (the (map_of s c)))) (map fst s)"
proof -
  assume d: "distinct (map fst s)"
  have "(case x of (col, v) \<Rightarrow> (col, g v)) = (fst x, g (the (map_of s (fst x))))"
    if "x \<in> set s" for x
  proof -
    from that have "(fst x, snd x) \<in> set s" by simp
    with d have "map_of s (fst x) = Some (snd x)" by (simp only: map_of_eq_Some_iff)
    then show ?thesis by (simp add: case_prod_beta)
  qed
  then show ?thesis by (simp add: comp_def cong: map_cong)
qed

lemma from_nested_dict_step:
  assumes ks: "distinct ks"
    and uni: "\<forall>x \<in> set rest. map fst (snd x) = ks"
    and dist: "distinct (map fst (pre @ rest))"
  shows "foldl (\<lambda>new_data (idx, s).
              foldl (\<lambda>new_data (col, v).
                       setitem new_data col (setitem (getdefault new_data col) idx v))
                    new_data s)
           (map (\<lambda>c. (c, map (\<lambda>(i, s). (i, the (map_of s c))) pre)) ks) rest =
         map (\<lambda>c. (c, map (\<lambda>(i, s). (i, the (map_of s c))) (pre @ rest))) ks"
  using uni dist
proof (induction rest arbitrary: pre)
  case Nil
  show ?case by simp
next
  case (Cons x rest)
  obtain i s where x: "x = (i, s)" by (cases x)
  from Cons.prems x have keys_s: "map fst s = ks" by simp
  with ks have ds: "distinct (map fst s)" by simp
  from keys_s have "set ks = fst ` set s" by (metis set_map)
  then have sub: "fst ` set s \<subseteq> set ks" by simp
  from Cons.prems(2) x have fresh: "i \<notin> fst ` set pre" by auto
  let ?G = "\<lambda>pre c. map (\<lambda>(i, s). (i, the (map_of s c))) pre"
  have "map (\<lambda>c. (c, case map_of s c of None \<Rightarrow> ?G pre c
                       | Some v \<Rightarrow> setitem (?G pre c) i v)) ks =
        map (\<lambda>c. (c, ?G (pre @ [x]) c)) ks"
  proof (rule map_cong [OF refl])
    fix c assume "c \<in> set ks"
    with keys_s have "c \<in> fst ` set s" by (metis set_map)
    then obtain v where v: "map_of s c = Some v"
      by (metis map_of_eq_None_iff not_None_eq)
    from fresh have "i \<notin> fst ` set (?G pre c)" by (auto simp: image_iff)
    then have "setitem (?G pre c) i v = ?G pre c @ [(i, v)]" by (rule setitem_fresh)
    with v x show "(c, case map_of s c of None \<Rightarrow> ?G pre c
                       | Some v \<Rightarrow> setitem (?G pre c) i v) = (c, ?G (pre @ [x]) c)"
      by simp
  qed
  with regroup_later [OF ks ds sub, of i "?G pre"]
  have one: "foldl (\<lambda>new_data (col, v).
                       setitem new_data col (setitem (getdefault new_data col) i v))
                   (map (\<lambda>c. (c, ?G pre c)) ks) s = map (\<lambda>c. (c, ?G (pre @ [x]) c)) ks"
    by simp
  from Cons.prems have "\<forall>x \<in> set rest. map fst (snd x) = ks"
    and "distinct (map fst ((pre @ [x]) @ rest))" by auto
  from Cons.IH [OF this] one x show ?case by simp
qed

lemma from_nested_dict_uniform:
  assumes ks: "distinct ks"
    and uni: "\<forall>x \<in> set data. map fst (snd x) = ks"
    and dist: "distinct (map fst data)"
    and ne: "data \<noteq> []"
  shows "from_nested_dict data =
         map (\<lambda>c. (c, map (\<lambda>(i, s). (i, the (map_of s c))) data)) ks"
proof -
  from ne obtain x rest where data: "data = x # rest" by (cases data) auto
  obtain i s where x: "x = (i, s)" by (cases x)
  from uni data x have keys_s: "map fst s = ks" by simp
  with ks have ds: "distinct (map fst s)" by simp
  have "foldl (\<lambda>new_data (col, v).
                 setitem new_data col (setitem (getdefault new_data col) i v)) [] s =
        map (\<lambda>(col, v). (col, [(i, v)])) s"
    using regroup_first [OF ds, of "[]" i] by simp
  also have "\<dots> = map (\<lambda>c. (c, [(i, the (map_of s c))])) (map fst s)"
    using items_by_keys [OF ds, of "\<lambda>v. [(i, v)]"] by simp
  finally have first:
    "foldl (\<lambda>new_data (col, v).
                 setitem new_data col (setitem (getdefault new_data col) i v)) [] s =
     map (\<lambda>c. (c, map (\<lambda>(i, s). (i, the (map_of s c))) [x])) ks"
    by (simp add: keys_s x)
  from uni dist data have "\<forall>x \<in> set rest. map fst (snd x) = ks"
    and "distinct (map fst ([x] @ rest))" by auto
  from from_nested_dict_step [OF ks this] first data x show ?thesis
    by (simp add: from_nested_dict_def)
qed


lemma remdups_append_subset: "set as \<subseteq> set bs \<Longrightarrow> remdups (as @ bs) = remdups bs"
  by (induction as) auto

lemma union_indexes_same:
  assumes "distinct xs" and "ks \<noteq> []"
  shows "union_indexes (map (\<lambda>c. xs) ks) = xs"
proof -
  from assms(2) obtain k ks' where ks: "ks = k # ks'" by (cases ks) auto
  have sub: "set (rev (concat (map (\<lambda>c. xs) ks'))) \<subseteq> set (rev xs)" by auto
  have "union_indexes (map (\<lambda>c. xs) ks) =
        rev (remdups (rev (concat (map (\<lambda>c. xs) ks')) @ rev xs))"
    by (simp add: union_indexes_def ks)
  also have "\<dots> = rev (remdups (rev xs))"
    by (simp only: remdups_append_subset [OF sub])
  also from assms(1) have "\<dots> = xs" by (simp add: distinct_remdups_id)
  finally show ?thesis .
qed

lemma DataFrame_uniform:
  assumes ne: "ks \<noteq> []"
    and dist: "distinct (map fst data)"
    and uni: "\<forall>x \<in> set data. map fst (snd x) = ks"
  shows "DataFrame (map (\<lambda>c. (c, map (\<lambda>(i, s). (i, the (map_of s c))) data)) ks) =
         \<lparr>index = map fst data, columns = ks,
          cells = map (\<lambda>(i, s). map (map_of s) ks) data\<rparr>"
proof -
  let ?nd = "map (\<lambda>c. (c, map (\<lambda>(i, s). (i, the (map_of s c))) data)) ks"
  have inner_keys: "map (\<lambda>(col, s). keys s) ?nd = map (\<lambda>c. map fst data) ks"
    by (simp add: keys_def comp_def case_prod_beta)
  have idx: "union_indexes (map (\<lambda>(col, s). keys s) ?nd) = map fst data"
    by (simp only: inner_keys union_indexes_same [OF dist ne])
  have cols: "keys ?nd = ks" by (simp add: keys_def comp_def)
  have cell: "map (\<lambda>(col, s). getitem s (fst x)) ?nd = map (map_of (snd x)) ks"
    if x: "x \<in> set data" for x
  proof -
    have "getitem (map (\<lambda>(i, s). (i, the (map_of s c))) data) (fst x) = map_of (snd x) c"
      if c: "c \<in> set ks" for c
    proof -
      from uni x have "map fst (snd x) = ks" by simp
      then have "set ks = fst ` set (snd x)" by (metis set_map)
      with c have "c \<in> fst ` set (snd x)" by simp
      then obtain v where v: "map_of (snd x) c = Some v"
        by (metis map_of_eq_None_iff not_None_eq)
      from dist have d: "distinct (map fst (map (\<lambda>(i, s). (i, the (map_of s c))) data))"
        by (simp add: comp_def case_prod_beta)
      from x have "(\<lambda>(i, s). (i, the (map_of s c))) x \<in>
                   (\<lambda>(i, s). (i, the (map_of s c))) ` set data"
        by (rule imageI)
      then have "(fst x, the (map_of (snd x) c)) \<in>
                 set (map (\<lambda>(i, s). (i, the (map_of s c))) data)"
        by (simp add: case_prod_beta)
      with d have "map_of (map (\<lambda>(i, s). (i, the (map_of s c))) data) (fst x) =
                   Some (the (map_of (snd x) c))"
        by (simp only: map_of_eq_Some_iff)
      with v show ?thesis by (simp add: getitem_def)
    qed
    then show ?thesis by (simp add: comp_def cong: map_cong)
  qed
  have cells: "map (\<lambda>i. map (\<lambda>(col, s). getitem s i) ?nd) (map fst data) =
               map (\<lambda>(i, s). map (map_of s) ks) data"
    using cell by (simp add: comp_def case_prod_beta cong: map_cong)
  show ?thesis
    by (simp only: DataFrame_def Let_def idx cols cells)
qed

lemma from_dict_index_uniform:
  assumes "ks \<noteq> []" and "distinct ks" and "distinct (map fst data)"
    and "\<forall>x \<in> set data. map fst (snd x) = ks" and "data \<noteq> []"
  shows "from_dict_index data =
         \<lparr>index = map fst data, columns = ks,
          cells = map (\<lambda>(i, s). map (map_of s) ks) data\<rparr>"
  using assms
  by (simp add: from_dict_index_def from_nested_dict_uniform DataFrame_uniform)

lemma construct_dataframe_frame:
  assumes ne: "fastas \<noteq> []" and tm: "distinct two_mers" and tm_ne: "two_mers \<noteq> []"
  shows "fst (construct_dataframe two_mers fastas) =
     \<lparr>index = first_seen (map id' fastas),
      columns = two_mers,
      cells = map (\<lambda>i. map (\<lambda>mer. Some (str_count
                       (seq (last (filter (\<lambda>fasta. id' fasta = i) fastas))) mer)) two_mers)
                  (first_seen (map id' fastas))\<rparr>"
proof -
  let ?ids = "first_seen (map id' fastas)"
  let ?g = "\<lambda>fasta. count_two_mers (seq fasta) two_mers"
  let ?data = "map (\<lambda>i. (i, ?g (last (filter (\<lambda>fasta. id' fasta = i) fastas)))) ?ids"
  have dict: "foldl (\<lambda>dictionary fasta.
                 setitem dictionary (id' fasta) (count_two_mers (seq fasta) two_mers))
               [] fastas = ?data"
    by (rule foldl_setitem_keyed [of id' ?g fastas])
  from ne have "set ?ids \<noteq> {}" by (simp add: set_first_seen)
  then have data_ne: "?data \<noteq> []" by auto
  have dist: "distinct (map fst ?data)" by (simp add: comp_def distinct_first_seen)
  have uni: "\<forall>x \<in> set ?data. map fst (snd x) = two_mers"
    by (auto simp: count_two_mers_distinct [OF tm] comp_def)
  have row: "map (map_of (?g f)) two_mers = map (\<lambda>mer. Some (str_count (seq f) mer)) two_mers"
    for f
    using getitem_count_two_mers [of "seq f" two_mers]
    by (simp add: getitem_def cong: map_cong)
  from from_dict_index_uniform [OF tm_ne tm dist uni data_ne]
  show ?thesis
    by (simp add: construct_dataframe_def dict Let_def comp_def row)
qed


subsection \<open>The prediction column and the written table\<close>

lemma position_absent: "x \<notin> set xs \<Longrightarrow> position xs x = None"
  by (induction xs) auto

lemma position_appended: "x \<notin> set xs \<Longrightarrow> position (xs @ [x]) x = Some (length xs)"
  by (induction xs) auto

lemma appended_cells:
  "\<forall>row \<in> set cs. length row = n \<Longrightarrow> length cs = length vs \<Longrightarrow>
   map (\<lambda>row. [row ! n]) (map (\<lambda>(row, v). row @ [Some v]) (zip cs vs)) =
   map (\<lambda>v. [Some v]) vs"
proof (induction cs arbitrary: vs)
  case Nil
  then show ?case by simp
next
  case (Cons c cs)
  then obtain v vs' where "vs = v # vs'" by (cases vs) auto
  with Cons show ?case by (simp add: nth_append)
qed

lemma set_column_new:
  assumes "col \<notin> set (columns df)" and "length vs = length (index df)"
  shows "set_column df col vs =
         Inr (df\<lparr>columns := columns df @ [col],
                 cells := map (\<lambda>(row, v). row @ [Some v]) (zip (cells df) vs)\<rparr>)"
  using assms by (simp add: set_column_def position_absent)

lemma set_column_mismatch:
  "length vs \<noteq> length (index df) \<Longrightarrow> set_column df col vs = Inl ValueError"
  by (simp add: set_column_def)

lemma column_frame_appended:
  assumes "col \<notin> set cols" and "\<forall>row \<in> set cs. length row = length cols"
    and "length cs = length vs"
  shows "column_frame \<lparr>index = idx, columns = cols @ [col],
                        cells = map (\<lambda>(row, v). row @ [Some v]) (zip cs vs)\<rparr> col =
         Inr \<lparr>index = idx, columns = [col], cells = map (\<lambda>v. [Some v]) vs\<rparr>"
  using assms appended_cells [of cs "length cols" vs]
  by (simp add: column_frame_def position_appended del: map_map)

lemma prediction_not_two_mer: "''prediction'' \<notin> set (string_two_mers u)"
  using dyad_length [of "''prediction''" u] by auto

lemma string_two_mers_nonempty: "string_two_mers u \<noteq> []"
  using length_string_two_mers [of u] by auto

lemma make_prediction_Inr:
  "make_prediction e df = (Inr prediction, printed) \<longleftrightarrow>
     (\<exists>model. load e (script_dir e @ ''/sr_a.joblib'') = Inr model \<and> model df = Inr prediction)
     \<and> printed = [Predicting, FinishedPrediction]"
  by (auto simp: make_prediction_def Let_def split: sum.splits)

lemma written_start_cases:
  "written (start e source output) =
     (case get_fastas e source of
        (Inl err, out) \<Rightarrow> None
      | (Inr fastas, out) \<Rightarrow>
          if fastas = [] then None
          else (case make_prediction e (fst (construct_dataframe (string_two_mers ()) fastas)) of
                  (Inl err, printed) \<Rightarrow> None
                | (Inr prediction, printed) \<Rightarrow>
                    if length prediction = length (first_seen (map id' fastas))
                       \<and> writable e output
                    then Some (output,
                           \<lparr>header = [''Protein ID'', ''prediction''],
                            rows = zip (first_seen (map id' fastas))
                                       (map (\<lambda>v. [Some v]) prediction)\<rparr>)
                    else None))"
proof (cases "get_fastas e source")
  case (Pair r out)
  show ?thesis
  proof (cases r)
    case (Inl err)
    with Pair show ?thesis by (simp add: start_def)
  next
    case (Inr fastas)
    show ?thesis
    proof (cases "fastas = []")
      case True
      with Pair Inr show ?thesis by (simp add: start_def)
    next
      case False
      let ?tm = "string_two_mers ()"
      let ?ids = "first_seen (map id' fastas)"
      let ?cs = "map (\<lambda>i. map (\<lambda>mer. Some (str_count
                       (seq (last (filter (\<lambda>fasta. id' fasta = i) fastas))) mer)) ?tm) ?ids"
      let ?df = "\<lparr>index = ?ids, columns = ?tm, cells = ?cs\<rparr>"
      have frame: "fst (construct_dataframe ?tm fastas) = ?df"
        by (rule construct_dataframe_frame
            [OF False distinct_string_two_mers string_two_mers_nonempty])
      obtain p printed where mp: "make_prediction e ?df = (p, printed)"
        by (cases "make_prediction e ?df")
      show ?thesis
      proof (cases p)
        case (Inl err)
        with Pair Inr False mp frame show ?thesis
          by (simp add: start_def Let_def split_beta)
      next
        case pred: (Inr prediction)
        show ?thesis
        proof (cases "length prediction = length ?ids")
          case mismatch: False
          then have "set_column ?df ''prediction'' prediction = Inl ValueError"
            by (simp add: set_column_mismatch)
          with Pair Inr False mp frame pred mismatch show ?thesis
            by (simp add: start_def Let_def split_beta)
        next
          case len: True
          have sc: "set_column ?df ''prediction'' prediction =
                Inr \<lparr>index = ?ids, columns = ?tm @ [''prediction''],
                     cells = map (\<lambda>(row, v). row @ [Some v]) (zip ?cs prediction)\<rparr>"
            using set_column_new [of "''prediction''" ?df prediction] len
            by (simp add: prediction_not_two_mer)
          have cf: "column_frame \<lparr>index = ?ids, columns = ?tm @ [''prediction''],
                     cells = map (\<lambda>(row, v). row @ [Some v]) (zip ?cs prediction)\<rparr>
                     ''prediction'' =
                Inr \<lparr>index = ?ids, columns = [''prediction''],
                     cells = map (\<lambda>v. [Some v]) prediction\<rparr>"
            by (rule column_frame_appended) (auto simp: prediction_not_two_mer len)
          from Pair Inr False mp frame pred len sc cf show ?thesis
            by (simp add: start_def Let_def split_beta to_csv_def)
        qed
      qed
    qed
  qed
qed


lemma construct_dataframe_empty:
  "fst (construct_dataframe two_mers []) = \<lparr>index = [], columns = [], cells = []\<rparr>"
  by (simp add: construct_dataframe_def from_dict_index_def DataFrame_def union_indexes_def
      keys_def)

lemma zip_tabulate: "zip xs (map f xs) = map (\<lambda>x. (x, f x)) xs"
  by (induction xs) auto

lemma keys_count_two_mers: "distinct two_mers \<Longrightarrow> keys (count_two_mers s two_mers) = two_mers"
  by (simp add: count_two_mers_distinct keys_def comp_def)

lemma written_start_iff:
  "written (start e source output) = Some w \<longleftrightarrow>
     (\<exists>fastas out model prediction.
        get_fastas e source = (Inr fastas, out) \<and> fastas \<noteq> [] \<and>
        load e (script_dir e @ ''/sr_a.joblib'') = Inr model \<and>
        model (fst (construct_dataframe (string_two_mers ()) fastas)) = Inr prediction \<and>
        length prediction = length (first_seen (map id' fastas)) \<and>
        writable e output \<and>
        w = (output,
             \<lparr>header = [''Protein ID'', ''prediction''],
              rows = zip (first_seen (map id' fastas)) (map (\<lambda>v. [Some v]) prediction)\<rparr>))"
  (is "?lhs \<longleftrightarrow> ?rhs")
proof
  assume l: ?lhs
  obtain r out where g: "get_fastas e source = (r, out)" by (cases "get_fastas e source")
  from l g obtain fastas where r: "r = Inr fastas" and ne: "fastas \<noteq> []"
    by (cases r) (auto simp: written_start_cases split: if_splits)
  obtain p printed where
    mp: "make_prediction e (fst (construct_dataframe (string_two_mers ()) fastas)) = (p, printed)"
    by (cases "make_prediction e (fst (construct_dataframe (string_two_mers ()) fastas))")
  from l g r ne mp obtain prediction where p: "p = Inr prediction"
    by (cases p) (auto simp: written_start_cases)
  from l g r ne mp p have len: "length prediction = length (first_seen (map id' fastas))"
    and wr: "writable e output"
    and w: "w = (output,
             \<lparr>header = [''Protein ID'', ''prediction''],
              rows = zip (first_seen (map id' fastas)) (map (\<lambda>v. [Some v]) prediction)\<rparr>)"
    by (auto simp: written_start_cases split: if_splits)
  from mp p obtain model where "load e (script_dir e @ ''/sr_a.joblib'') = Inr model"
    and "model (fst (construct_dataframe (string_two_mers ()) fastas)) = Inr prediction"
    by (auto simp: make_prediction_Inr)
  with g r ne len wr w show ?rhs by blast
next
  assume ?rhs
  then obtain fastas out model prediction where
    g: "get_fastas e source = (Inr fastas, out)" and ne: "fastas \<noteq> []"
    and l: "load e (script_dir e @ ''/sr_a.joblib'') = Inr model"
    and m: "model (fst (construct_dataframe (string_two_mers ()) fastas)) = Inr prediction"
    and len: "length prediction = length (first_seen (map id' fastas))"
    and wr: "writable e output"
    and w: "w = (output,
             \<lparr>header = [''Protein ID'', ''prediction''],
              rows = zip (first_seen (map id' fastas)) (map (\<lambda>v. [Some v]) prediction)\<rparr>)"
    by blast
  from l m have "make_prediction e (fst (construct_dataframe (string_two_mers ()) fastas)) =
      (Inr prediction, [Predicting, FinishedPrediction])"
    by (simp add: make_prediction_Inr)
  with g ne len wr w show ?lhs by (simp add: written_start_cases)
qed

lemma second_two_mer: "string_two_mers u ! Suc 0 = ''AC''"
  using string_two_mers_nth [of 0 1 u] by (simp add: LETTERS_def)

lemma example_model_frame:
  assumes "fastas \<noteq> []"
  shows "example_model (fst (construct_dataframe (string_two_mers ()) fastas)) =
     Inr (map (\<lambda>i. if 0 < str_count (seq (last (filter (\<lambda>fasta. id' fasta = i) fastas))) ''AC''
                    then 1 else 0)
              (first_seen (map id' fastas)))"
proof -
  have "1 < length (string_two_mers ())" by (simp add: length_string_two_mers)
  then show ?thesis
    by (simp add: construct_dataframe_frame [OF assms distinct_string_two_mers
          string_two_mers_nonempty] example_model_def comp_def second_two_mer)
qed

lemma count_AC_in_ACACAC: "str_count ''ACACAC'' ''AC'' = 3"
  by code_simp

lemma count_AC_in_GGGGGG: "str_count ''GGGGGG'' ''AC'' = 0"
  by code_simp

lemma counts_ACACAC:
  "map (str_count ''ACACAC'') (string_two_mers ()) =
   map (\<lambda>mer. if mer = ''AC'' then 3 else if mer = ''CA'' then 2 else 0) (string_two_mers ())"
  by code_simp

lemma counts_GGGGGG:
  "map (str_count ''GGGGGG'') (string_two_mers ()) =
   map (\<lambda>mer. if mer = ''GG'' then 3 else 0) (string_two_mers ())"
  by code_simp

lemma example_get_fastas:
  "get_fastas example_env ''in.fasta'' = (Inr [P1, P2], [NumberOfSequences ''in.fasta'' 2])"
  "get_fastas example_env ''dup.fasta'' =
     (Inr [P1, P2, P1_again], [NumberOfSequences ''dup.fasta'' 3])"
  by (simp_all add: get_fastas_def read_fastas_from_file_def example_env_def)

lemma example_load:
  "load example_env (script_dir example_env @ ''/sr_a.joblib'') = Inr example_model"
  by (simp add: example_env_def)

lemma example_labels:
  "example_model (fst (construct_dataframe (string_two_mers ()) [P1, P2])) = Inr [1, 0]"
  "example_model (fst (construct_dataframe (string_two_mers ()) [P1, P2, P1_again])) = Inr [0, 0]"
  "example_model (fst (construct_dataframe (string_two_mers ()) [P1])) = Inr [1]"
  by (simp_all add: example_model_frame first_seen_def P1_def P2_def P1_again_def
      count_AC_in_ACACAC count_AC_in_GGGGGG)

lemma example_written_dup:
  "written (start example_env ''dup.fasta'' ''out.csv'') =
     Some (''out.csv'', \<lparr>header = [''Protein ID'', ''prediction''],
                         rows = [(''P1'', [Some 0]), (''P2'', [Some 0])]\<rparr>)"
proof -
  have "make_prediction example_env
          (fst (construct_dataframe (string_two_mers ()) [P1, P2, P1_again])) =
        (Inr [0, 0], [Predicting, FinishedPrediction])"
    by (simp add: make_prediction_Inr example_load example_labels)
  moreover have "first_seen (map id' [P1, P2, P1_again]) = [''P1'', ''P2'']"
    by (simp add: first_seen_def P1_def P2_def P1_again_def)
  moreover have "writable example_env ''out.csv''" by (simp add: example_env_def)
  ultimately show ?thesis
    by (simp add: written_start_cases example_get_fastas)
qed

subsection \<open>Claims about the feature matrix and the output\<close>

text \<open>
  C3. For every list of records, every row of the matrix that \<open>construct_dataframe\<close>
  builds over the feature space pairs the column labels with the cells in feature-space
  order: the labelled row is the list of (dyad, count) over \<open>string_two_mers\<close>, whatever
  the records are. The dictionary of each record has its keys in that order too.
\<close>

theorem feature_matrix_column_order:
  "(let df = fst (construct_dataframe (string_two_mers ()) fastas) in
      (fastas \<noteq> [] \<longrightarrow> columns df = string_two_mers ())
      \<and> length (cells df) = length (index df)
      \<and> (\<forall>r < length (cells df).
            zip (columns df) (cells df ! r) =
            map (\<lambda>mer. (mer, Some (str_count
                   (seq (last (filter (\<lambda>fasta. id' fasta = index df ! r) fastas))) mer)))
                (string_two_mers ())))
   \<and> keys (count_two_mers s (string_two_mers ())) = string_two_mers ()"
proof (cases "fastas = []")
  case True
  then show ?thesis
    by (simp add: construct_dataframe_empty keys_count_two_mers distinct_string_two_mers)
next
  case False
  from construct_dataframe_frame [OF False distinct_string_two_mers string_two_mers_nonempty]
  show ?thesis
    by (simp add: Let_def zip_tabulate keys_count_two_mers distinct_string_two_mers)
qed

theorem feature_matrix_column_order_witness:
  "[P1, P2] \<noteq> []
   \<and> columns (fst (construct_dataframe (string_two_mers ()) [P1, P2])) = string_two_mers ()
   \<and> (1::nat) < length (cells (fst (construct_dataframe (string_two_mers ()) [P1, P2])))
   \<and> zip (columns (fst (construct_dataframe (string_two_mers ()) [P1, P2])))
          (cells (fst (construct_dataframe (string_two_mers ()) [P1, P2])) ! 1) =
      map (\<lambda>mer. (mer, Some (str_count ''GGGGGG'' mer))) (string_two_mers ())"
proof -
  let ?df = "fst (construct_dataframe (string_two_mers ()) [P1, P2])"
  have ne: "[P1, P2] \<noteq> []" by simp
  from construct_dataframe_frame [OF ne distinct_string_two_mers string_two_mers_nonempty]
  have idx: "index ?df = [''P1'', ''P2'']"
    by (simp add: first_seen_def P1_def P2_def)
  note th = feature_matrix_column_order [of "[P1, P2]" "[]", unfolded Let_def]
  from th ne
  have cols: "columns ?df = string_two_mers ()"
    and len: "length (cells ?df) = length (index ?df)"
    and all: "\<forall>r < length (cells ?df).
            zip (columns ?df) (cells ?df ! r) =
            map (\<lambda>mer. (mer, Some (str_count
                   (seq (last (filter (\<lambda>fasta. id' fasta = index ?df ! r) [P1, P2]))) mer)))
                (string_two_mers ())"
    by blast+
  from len idx have lt: "1 < length (cells ?df)" by simp
  from all [rule_format, OF lt] idx
  have "zip (columns ?df) (cells ?df ! 1) =
        map (\<lambda>mer. (mer, Some (str_count ''GGGGGG'' mer))) (string_two_mers ())"
    by (simp add: P1_def P2_def)
  with ne cols lt show ?thesis by simp
qed

text \<open>
  C5, as stated, fails on the code: over the letters of the pair AC, the dyad CA is
  another dyad, and it occurs twice in ACACAC (at positions 1 and 3).
\<close>

theorem P1_other_dyad_counterexample:
  "seq P1 = ''ACACAC''
   \<and> ''CA'' \<in> set (string_two_mers ()) \<and> ''CA'' \<noteq> ''AC''
   \<and> getitem (count_two_mers (seq P1) (string_two_mers ())) ''CA'' = Some 2"
proof -
  have m: "''CA'' \<in> set (string_two_mers ())"
    by (simp add: string_two_mers_product join_tuple_def image_iff LETTERS_def)
  have c: "str_count ''ACACAC'' ''CA'' = 2" by code_simp
  from m c show ?thesis by (simp add: getitem_count_two_mers P1_def)
qed

text \<open>
  C5, amended. For the records P1 with sequence ACACAC and P2 with sequence GGGGGG, the
  row of P1 has 3 at AC, 2 at CA and 0 at every other dyad, the row of P2 has 3 at GG
  and 0 at every other dyad (so 0 at AC); and when the classifier returns the labels
  \<open>a\<close> and \<open>b\<close>, the written table has exactly the two rows P1 with \<open>a\<close> and P2
  with \<open>b\<close>, in that order.
\<close>

theorem example_two_records:
  "(let df = fst (construct_dataframe (string_two_mers ()) [P1, P2]) in
      index df = [''P1'', ''P2'']
      \<and> columns df = string_two_mers ()
      \<and> cells df =
          [map (\<lambda>mer. Some (if mer = ''AC'' then 3 else if mer = ''CA'' then 2 else 0))
               (string_two_mers ()),
           map (\<lambda>mer. Some (if mer = ''GG'' then 3 else 0)) (string_two_mers ())])
   \<and> (get_fastas e source = (Inr [P1, P2], out)
        \<and> load e (script_dir e @ ''/sr_a.joblib'') = Inr model
        \<and> model (fst (construct_dataframe (string_two_mers ()) [P1, P2])) = Inr [a, b]
        \<and> writable e output \<longrightarrow>
      written (start e source output) =
        Some (output, \<lparr>header = [''Protein ID'', ''prediction''],
                       rows = [(''P1'', [Some a]), (''P2'', [Some b])]\<rparr>))"
proof -
  have ne: "[P1, P2] \<noteq> []" by simp
  have ids: "first_seen (map id' [P1, P2]) = [''P1'', ''P2'']"
    by (simp add: first_seen_def P1_def P2_def)
  have r1: "map (\<lambda>mer. Some (str_count ''ACACAC'' mer)) (string_two_mers ()) =
            map (\<lambda>mer. Some (if mer = ''AC'' then 3 else if mer = ''CA'' then 2 else 0))
                (string_two_mers ())"
    using arg_cong [OF counts_ACACAC, of "map Some"] by (simp add: comp_def)
  have r2: "map (\<lambda>mer. Some (str_count ''GGGGGG'' mer)) (string_two_mers ()) =
            map (\<lambda>mer. Some (if mer = ''GG'' then 3 else 0)) (string_two_mers ())"
    using arg_cong [OF counts_GGGGGG, of "map Some"] by (simp add: comp_def)
  have frame: "fst (construct_dataframe (string_two_mers ()) [P1, P2]) =
      \<lparr>index = [''P1'', ''P2''], columns = string_two_mers (),
       cells = [map (\<lambda>mer. Some (str_count ''ACACAC'' mer)) (string_two_mers ()),
                map (\<lambda>mer. Some (str_count ''GGGGGG'' mer)) (string_two_mers ())]\<rparr>"
    using construct_dataframe_frame [OF ne distinct_string_two_mers string_two_mers_nonempty]
    by (simp add: first_seen_def P1_def P2_def)
  have run: "written (start e source output) =
        Some (output, \<lparr>header = [''Protein ID'', ''prediction''],
                       rows = [(''P1'', [Some a]), (''P2'', [Some b])]\<rparr>)"
    if g: "get_fastas e source = (Inr [P1, P2], out)"
      and l: "load e (script_dir e @ ''/sr_a.joblib'') = Inr model"
      and m: "model (fst (construct_dataframe (string_two_mers ()) [P1, P2])) = Inr [a, b]"
      and wr: "writable e output"
  proof -
    from l m have "make_prediction e (fst (construct_dataframe (string_two_mers ()) [P1, P2])) =
        (Inr [a, b], [Predicting, FinishedPrediction])"
      by (simp add: make_prediction_Inr)
    with g wr ids show ?thesis by (simp add: written_start_cases)
  qed
  from frame r1 r2 run show ?thesis by (simp add: Let_def)
qed

theorem example_two_records_witness:
  "get_fastas example_env ''in.fasta'' = (Inr [P1, P2], [NumberOfSequences ''in.fasta'' 2])
   \<and> load example_env (script_dir example_env @ ''/sr_a.joblib'') = Inr example_model
   \<and> example_model (fst (construct_dataframe (string_two_mers ()) [P1, P2])) = Inr [1, 0]
   \<and> writable example_env ''res.csv''
   \<and> written (start example_env ''in.fasta'' ''res.csv'') =
        Some (''res.csv'', \<lparr>header = [''Protein ID'', ''prediction''],
                            rows = [(''P1'', [Some 1]), (''P2'', [Some 0])]\<rparr>)"
proof -
  have wr: "writable example_env ''res.csv''" by (simp add: example_env_def)
  note th = example_two_records [of example_env "''in.fasta''"
      "[NumberOfSequences ''in.fasta'' 2]" example_model 1 0 "''res.csv''"]
  from th example_get_fastas(1) example_load example_labels(1) wr
  have "written (start example_env ''in.fasta'' ''res.csv'') =
        Some (''res.csv'', \<lparr>header = [''Protein ID'', ''prediction''],
                            rows = [(''P1'', [Some 1]), (''P2'', [Some 0])]\<rparr>)"
    by blast
  with example_get_fastas(1) example_load example_labels(1) wr show ?thesis by simp
qed

text \<open>
  C6, as stated, fails on the code: the records are collected in a dictionary keyed by
  identifier, so two records with the identifier P1 give one row.
\<close>

theorem duplicate_identifiers_counterexample:
  "map id' [P1, P1_again] = [''P1'', ''P1'']
   \<and> index (fst (construct_dataframe (string_two_mers ()) [P1, P1_again])) = [''P1'']
   \<and> length (cells (fst (construct_dataframe (string_two_mers ()) [P1, P1_again]))) = 1"
proof -
  have ne: "[P1, P1_again] \<noteq> []" by simp
  from construct_dataframe_frame [OF ne distinct_string_two_mers string_two_mers_nonempty]
  show ?thesis
    by (simp add: first_seen_def P1_def P1_again_def)
qed

text \<open>
  C6, amended. Duplicate identifiers are not rejected, and they are merged: the matrix
  has one row per distinct identifier, at the place of the identifier's first
  occurrence, with the counts of the last record that has this identifier. The written
  table has the same row labels: for the records that the source yields, its first
  column is the list of their distinct identifiers in the order of first occurrence,
  and such a table is written whenever the model loads, the classifier returns one
  label per matrix row and the destination is writable. No identifier labels two rows
  of the matrix or of the written table.
\<close>

theorem duplicate_identifiers_merged:
  "(let df = fst (construct_dataframe (string_two_mers ()) fastas) in
      index df = first_seen (map id' fastas)
      \<and> distinct (index df)
      \<and> set (index df) = id' ` set fastas
      \<and> length (cells df) = length (index df)
      \<and> (\<forall>r < length (index df).
            cells df ! r =
            map (\<lambda>mer. Some (str_count
                   (seq (last (filter (\<lambda>fasta. id' fasta = index df ! r) fastas))) mer))
                (string_two_mers ())))
   \<and> (written (start e source output) = Some (path, file) \<longrightarrow>
        distinct (map fst (rows file)))
   \<and> (get_fastas e source = (Inr fastas, out)
        \<and> written (start e source output) = Some (path, file) \<longrightarrow>
        map fst (rows file) = first_seen (map id' fastas)
        \<and> map fst (rows file) = index (fst (construct_dataframe (string_two_mers ()) fastas))
        \<and> length (rows file) = length (first_seen (map id' fastas))
        \<and> set (map fst (rows file)) = id' ` set fastas)
   \<and> (get_fastas e source = (Inr fastas, out) \<and> fastas \<noteq> []
        \<and> load e (script_dir e @ ''/sr_a.joblib'') = Inr model
        \<and> model (fst (construct_dataframe (string_two_mers ()) fastas)) = Inr prediction
        \<and> length prediction = length (first_seen (map id' fastas))
        \<and> writable e output \<longrightarrow>
        written (start e source output) =
          Some (output,
                \<lparr>header = [''Protein ID'', ''prediction''],
                 rows = zip (first_seen (map id' fastas)) (map (\<lambda>v. [Some v]) prediction)\<rparr>))"
proof -
  let ?df = "fst (construct_dataframe (string_two_mers ()) fastas)"
  have idx: "index ?df = first_seen (map id' fastas)"
  proof (cases "fastas = []")
    case True
    then show ?thesis by (simp add: construct_dataframe_empty first_seen_def)
  next
    case False
    from construct_dataframe_frame [OF False distinct_string_two_mers string_two_mers_nonempty]
    show ?thesis by simp
  qed
  have frame: "let df = fst (construct_dataframe (string_two_mers ()) fastas) in
      index df = first_seen (map id' fastas)
      \<and> distinct (index df)
      \<and> set (index df) = id' ` set fastas
      \<and> length (cells df) = length (index df)
      \<and> (\<forall>r < length (index df).
            cells df ! r =
            map (\<lambda>mer. Some (str_count
                   (seq (last (filter (\<lambda>fasta. id' fasta = index df ! r) fastas))) mer))
                (string_two_mers ()))"
  proof (cases "fastas = []")
    case True
    then show ?thesis by (simp add: construct_dataframe_empty first_seen_def)
  next
    case False
    from construct_dataframe_frame [OF False distinct_string_two_mers string_two_mers_nonempty]
    show ?thesis by (simp add: Let_def distinct_first_seen set_first_seen)
  qed
  have out: "distinct (map fst (rows file))"
    if w: "written (start e source output) = Some (path, file)"
  proof -
    from w [unfolded written_start_iff] show ?thesis
      by (auto simp: distinct_first_seen)
  qed
  have ids: "map fst (rows file) = first_seen (map id' fastas)
        \<and> map fst (rows file) = index ?df
        \<and> length (rows file) = length (first_seen (map id' fastas))
        \<and> set (map fst (rows file)) = id' ` set fastas"
    if g: "get_fastas e source = (Inr fastas, out)"
      and w: "written (start e source output) = Some (path, file)"
  proof -
    from w [unfolded written_start_iff] g
    have "map fst (rows file) = first_seen (map id' fastas)"
      by auto
    moreover from this have "length (rows file) = length (first_seen (map id' fastas))"
      by (metis length_map)
    ultimately show ?thesis by (simp add: idx set_first_seen)
  qed
  have wr: "written (start e source output) =
          Some (output,
                \<lparr>header = [''Protein ID'', ''prediction''],
                 rows = zip (first_seen (map id' fastas)) (map (\<lambda>v. [Some v]) prediction)\<rparr>)"
    if "get_fastas e source = (Inr fastas, out)" and "fastas \<noteq> []"
      and "load e (script_dir e @ ''/sr_a.joblib'') = Inr model"
      and "model (fst (construct_dataframe (string_two_mers ()) fastas)) = Inr prediction"
      and "length prediction = length (first_seen (map id' fastas))"
      and "writable e output"
    using that by (subst written_start_iff) blast
  from frame out ids wr show ?thesis by blast
qed

theorem duplicate_identifiers_merged_witness:
  "index (fst (construct_dataframe (string_two_mers ()) [P1, P2, P1_again])) = [''P1'', ''P2'']
   \<and> (0::nat) < length [''P1'', ''P2'']
   \<and> cells (fst (construct_dataframe (string_two_mers ()) [P1, P2, P1_again])) ! 0 =
       map (\<lambda>mer. Some (str_count ''GGGGGG'' mer)) (string_two_mers ())
   \<and> get_fastas example_env ''dup.fasta'' =
       (Inr [P1, P2, P1_again], [NumberOfSequences ''dup.fasta'' 3])
   \<and> [P1, P2, P1_again] \<noteq> []
   \<and> load example_env (script_dir example_env @ ''/sr_a.joblib'') = Inr example_model
   \<and> example_model (fst (construct_dataframe (string_two_mers ()) [P1, P2, P1_again])) =
       Inr [0, 0]
   \<and> length [0::int, 0] = length (first_seen (map id' [P1, P2, P1_again]))
   \<and> writable example_env ''out.csv''
   \<and> written (start example_env ''dup.fasta'' ''out.csv'') =
       Some (''out.csv'', \<lparr>header = [''Protein ID'', ''prediction''],
                           rows = [(''P1'', [Some 0]), (''P2'', [Some 0])]\<rparr>)
   \<and> map fst (rows \<lparr>header = [''Protein ID'', ''prediction''],
                      rows = [(''P1'', [Some (0::int)]), (''P2'', [Some 0])]\<rparr>) =
       first_seen (map id' [P1, P2, P1_again])
   \<and> distinct (map fst (rows \<lparr>header = [''Protein ID'', ''prediction''],
                               rows = [(''P1'', [Some (0::int)]), (''P2'', [Some 0])]\<rparr>))"
proof -
  let ?df = "fst (construct_dataframe (string_two_mers ()) [P1, P2, P1_again])"
  let ?file = "\<lparr>header = [''Protein ID'', ''prediction''],
                rows = [(''P1'', [Some (0::int)]), (''P2'', [Some 0])]\<rparr>"
  note th = duplicate_identifiers_merged
    [of "[P1, P2, P1_again]" example_env "''dup.fasta''" "''out.csv''" "''out.csv''" ?file
        "[NumberOfSequences ''dup.fasta'' 3]" example_model "[0, 0]",
     unfolded Let_def]
  have ne: "[P1, P2, P1_again] \<noteq> []" by simp
  have wr: "writable example_env ''out.csv''" by (simp add: example_env_def)
  have fs: "first_seen (map id' [P1, P2, P1_again]) = [''P1'', ''P2'']"
    by (simp add: first_seen_def P1_def P2_def P1_again_def)
  then have len: "length [0::int, 0] = length (first_seen (map id' [P1, P2, P1_again]))"
    by simp
  from th have idx: "index ?df = first_seen (map id' [P1, P2, P1_again])" by blast
  with fs have idx': "index ?df = [''P1'', ''P2'']" by simp
  from th have "\<forall>r < length (index ?df). cells ?df ! r =
            map (\<lambda>mer. Some (str_count
                   (seq (last (filter (\<lambda>fasta. id' fasta = index ?df ! r)
                      [P1, P2, P1_again]))) mer))
                (string_two_mers ())"
    by blast
  from this [rule_format, of 0] idx'
  have row: "cells ?df ! 0 = map (\<lambda>mer. Some (str_count ''GGGGGG'' mer)) (string_two_mers ())"
    by (simp add: P1_def P2_def P1_again_def)
  from th example_get_fastas(2) ne example_load example_labels(2) len wr
  have w: "written (start example_env ''dup.fasta'' ''out.csv'') =
          Some (''out.csv'',
                \<lparr>header = [''Protein ID'', ''prediction''],
                 rows = zip (first_seen (map id' [P1, P2, P1_again]))
                            (map (\<lambda>v. [Some v]) [0, 0])\<rparr>)"
    by blast
  with fs have w': "written (start example_env ''dup.fasta'' ''out.csv'') = Some (''out.csv'', ?file)"
    by simp
  from th example_get_fastas(2) w'
  have ids: "map fst (rows ?file) = first_seen (map id' [P1, P2, P1_again])" by blast
  from th w' have d: "distinct (map fst (rows ?file))" by blast
  have pos: "(0::nat) < length [''P1'', ''P2'']" by simp
  show ?thesis
    by (intro conjI)
      (rule idx' pos row example_get_fastas(2) ne example_load example_labels(2) len wr w'
        ids d)+
qed

text \<open>
  C7, as stated, fails on the code: of three records found, two with the identifier P1,
  the table has two rows, and the row P1, placed before P2, carries the label of the
  record that was found after P2 (the first record alone is labelled 1).
\<close>

theorem output_rows_counterexample:
  "fst (get_fastas example_env ''dup.fasta'') = Inr [P1, P2, P1_again]
   \<and> written (start example_env ''dup.fasta'' ''out.csv'') =
       Some (''out.csv'', \<lparr>header = [''Protein ID'', ''prediction''],
                           rows = [(''P1'', [Some 0]), (''P2'', [Some 0])]\<rparr>)
   \<and> example_model (fst (construct_dataframe (string_two_mers ()) [P1])) = Inr [1]"
  by (simp add: example_get_fastas example_written_dup example_labels)

text \<open>
  C7, amended. A file is written exactly when at least one record was found, the model
  was loaded, the classifier returned one label per matrix row and the destination was
  writable; it is then the table with the header "Protein ID", "prediction" and one row
  per distinct identifier, in the order of first occurrence, each with the label of its
  matrix row. When the identifiers are pairwise distinct this is one row per record, in
  discovery order.
\<close>

theorem output_table_written:
  "(written (start e source output) = Some w \<longleftrightarrow>
     (\<exists>fastas out model prediction.
        get_fastas e source = (Inr fastas, out) \<and> fastas \<noteq> [] \<and>
        load e (script_dir e @ ''/sr_a.joblib'') = Inr model \<and>
        model (fst (construct_dataframe (string_two_mers ()) fastas)) = Inr prediction \<and>
        length prediction = length (first_seen (map id' fastas)) \<and>
        writable e output \<and>
        w = (output,
             \<lparr>header = [''Protein ID'', ''prediction''],
              rows = zip (first_seen (map id' fastas)) (map (\<lambda>v. [Some v]) prediction)\<rparr>)))
   \<and> distinct (first_seen (map id' records))
   \<and> set (first_seen (map id' records)) = id' ` set records
   \<and> (distinct (map id' records) \<longrightarrow> first_seen (map id' records) = map id' records)"
  using written_start_iff [of e source "output" w]
  by (simp add: distinct_first_seen set_first_seen first_seen_distinct)

theorem output_table_written_witness:
  "distinct (map id' [P1, P2])
   \<and> first_seen (map id' [P1, P2]) = [''P1'', ''P2'']
   \<and> get_fastas example_env ''in.fasta'' = (Inr [P1, P2], [NumberOfSequences ''in.fasta'' 2])
   \<and> written (start example_env ''in.fasta'' ''out.csv'') =
       Some (''out.csv'', \<lparr>header = [''Protein ID'', ''prediction''],
                           rows = [(''P1'', [Some 1]), (''P2'', [Some 0])]\<rparr>)"
proof -
  let ?w = "(''out.csv'', \<lparr>header = [''Protein ID'', ''prediction''],
                            rows = [(''P1'', [Some (1::int)]), (''P2'', [Some 0])]\<rparr>)"
  note th = output_table_written [of example_env "''in.fasta''" "''out.csv''" ?w "[P1, P2]"]
  have d: "distinct (map id' [P1, P2])" by (simp add: P1_def P2_def)
  with th have ids: "first_seen (map id' [P1, P2]) = map id' [P1, P2]" by blast
  then have ids': "first_seen (map id' [P1, P2]) = [''P1'', ''P2'']"
    by (simp add: P1_def P2_def)
  have wr: "writable example_env ''out.csv''" by (simp add: example_env_def)
  have "\<exists>fastas out model prediction.
        get_fastas example_env ''in.fasta'' = (Inr fastas, out) \<and> fastas \<noteq> [] \<and>
        load example_env (script_dir example_env @ ''/sr_a.joblib'') = Inr model \<and>
        model (fst (construct_dataframe (string_two_mers ()) fastas)) = Inr prediction \<and>
        length prediction = length (first_seen (map id' fastas)) \<and>
        writable example_env ''out.csv'' \<and>
        ?w = (''out.csv'',
             \<lparr>header = [''Protein ID'', ''prediction''],
              rows = zip (first_seen (map id' fastas)) (map (\<lambda>v. [Some v]) prediction)\<rparr>)"
    using example_get_fastas(1) example_load example_labels(1) wr ids'
    by (intro exI [of _ "[P1, P2]"] exI [of _ "[NumberOfSequences ''in.fasta'' 2]"]
        exI [of _ example_model] exI [of _ "[1, 0]"]) simp
  with th have "written (start example_env ''in.fasta'' ''out.csv'') = Some ?w" by blast
  with d ids' example_get_fastas(1) show ?thesis by simp
qed


end
